theory Spec2Isabelle
  imports Main
begin

section \<open>Strings\<close>

text \<open>
  JavaScript strings are modelled as lists of 8-bit characters, read as the code units of
  the Latin-1 range. \<open>toLowerCase\<close> and \<open>trim\<close> are \<open>String.prototype.toLowerCase\<close> and
  \<open>String.prototype.trim\<close> on that range; they are what the schema options
  \<open>lowercase: true\<close> and \<open>trim: true\<close> of \<open>models/User.js\<close> apply to a value.
\<close>

definition lower_char :: "char \<Rightarrow> char" where
  "lower_char c =
     (let n = (of_char c :: nat)
      in if (65 \<le> n \<and> n \<le> 90) \<or> (192 \<le> n \<and> n \<le> 222 \<and> n \<noteq> 215)
         then char_of (n + 32) else c)"

definition toLowerCase :: "string \<Rightarrow> string" where
  "toLowerCase s = map lower_char s"

definition is_space :: "char \<Rightarrow> bool" where
  "is_space c = ((of_char c :: nat) \<in> {9, 10, 11, 12, 13, 32, 160})"

definition trim :: "string \<Rightarrow> string" where
  "trim s = rev (dropWhile is_space (rev (dropWhile is_space s)))"

text \<open>A JavaScript value used as a condition: an absent field and the empty string are falsy.\<close>

fun truthy :: "string option \<Rightarrow> bool" where
  "truthy None = False"
| "truthy (Some s) = (s \<noteq> [])"

text \<open>The string a present field holds.\<close>

fun str_of :: "string option \<Rightarrow> string" where
  "str_of None = []"
| "str_of (Some s) = s"

section \<open>The account document (models/User.js)\<close>

type_synonym objectId = nat
type_synonym date = nat

datatype role = Role_user | Role_admin

datatype contentType = Movie | Tv

record refreshTokenEntry =
  token :: string
  createdAt :: date

record listItem =
  contentId :: string
  contentType :: contentType
  addedAt :: date

record historyItem =
  h_contentId :: string
  h_contentType :: contentType
  progress :: nat
  lastWatched :: date
  seasonNumber :: "nat option"
  episodeNumber :: "nat option"

record preferences =
  genres :: "string list"
  language :: string
  autoplay :: bool

text \<open>
  The fields of \<open>userSchema\<close>, with \<open>u_id\<close> for the document's \<open>_id\<close>. A path without a
  default that may be undefined on the JavaScript object is an option. The last three
  fields are the ones the schema does not list and every stored document has:
  \<open>u_createdAt\<close> and \<open>u_updatedAt\<close> for the \<open>createdAt\<close> and \<open>updatedAt\<close> stamps of the option
  \<open>timestamps: true\<close>, and \<open>u_v\<close> for the version key \<open>__v\<close>.
\<close>

record User =
  u_id :: objectId
  username :: string
  email :: string
  password :: "string option"
  firstName :: string
  lastName :: string
  profileImage :: "string option"
  role :: role
  isActive :: bool
  refreshTokens :: "refreshTokenEntry list"
  watchlist :: "listItem list"
  favorites :: "listItem list"
  watchHistory :: "historyItem list"
  preferences :: preferences
  passwordResetToken :: "string option"
  passwordResetExpires :: "date option"
  u_createdAt :: date
  u_updatedAt :: date
  u_v :: nat

text \<open>
  A document in memory: the object, whether it has never been saved, and the paths set
  since it was created or loaded (what \<open>isModified\<close> reads).
\<close>

record document =
  obj :: User
  isNew :: bool
  modifiedPaths :: "string list"

definition isModified :: "string \<Rightarrow> document \<Rightarrow> bool" where
  "isModified p d = (p \<in> set (modifiedPaths d))"

definition markModified :: "string \<Rightarrow> document \<Rightarrow> document" where
  "markModified p d = d\<lparr>modifiedPaths := p # modifiedPaths d\<rparr>"

text \<open>A document loaded from the store has no modified path.\<close>

definition hydrate :: "User \<Rightarrow> document" where
  "hydrate u = \<lparr>obj = u, isNew = False, modifiedPaths = []\<rparr>"

section \<open>What the program takes from outside\<close>

datatype jwt_error = JsonWebTokenError | TokenExpiredError | NotBeforeError

datatype exn =
    JwtError jwt_error
  | ValidationError string
  | DuplicateKeyError string
  | DocumentNotFoundError
  | BcryptError

text \<open>
  The libraries the routes call are parameters of the model. \<open>jwt_sign userId secret
  expiresIn iat\<close> is \<open>jwt.sign({ userId }, secret, { expiresIn })\<close> called when the clock
  shows second \<open>iat\<close>: the token is a function of the payload, the key, the lifetime
  and the second of issue, and of nothing else. \<open>jwt_verify tok secret t\<close> is
  \<open>jwt.verify(tok, secret)\<close> at second \<open>t\<close>, the decoded \<open>userId\<close> or the error it throws.
  \<open>email_regex_test\<close> is the verdict of the regular expression of the \<open>email\<close> path.
\<close>

record libs =
  jwt_sign :: "objectId \<Rightarrow> string \<Rightarrow> string \<Rightarrow> nat \<Rightarrow> string"
  jwt_verify :: "string \<Rightarrow> string \<Rightarrow> nat \<Rightarrow> jwt_error + objectId"
  bcrypt_genSalt :: "nat \<Rightarrow> string \<Rightarrow> string"
  bcrypt_hash :: "string \<Rightarrow> string \<Rightarrow> string"
  bcrypt_compare :: "string \<Rightarrow> string \<Rightarrow> bool"
  email_regex_test :: "string \<Rightarrow> bool"

text \<open>The variables of \<open>process.env\<close> that the routes and the model read.\<close>

record config =
  JWT_ACCESS_SECRET :: string
  JWT_ACCESS_EXPIRES_IN :: string
  JWT_REFRESH_SECRET :: string
  JWT_REFRESH_EXPIRES_IN :: string
  BCRYPT_ROUNDS :: nat

text \<open>
  What one request reads from its surroundings: \<open>Date.now()\<close> in milliseconds, the
  \<open>_id\<close> a new document is given, and the randomness \<open>bcrypt.genSalt\<close> draws.
\<close>

record request_env =
  clock :: date
  newId :: objectId
  entropy :: string

section \<open>The users collection\<close>

text \<open>
  The collection is the list of stored accounts in insertion order. A query returns the
  first account that matches. Mongoose casts the values of a filter with the setters of
  their paths, so a filter on \<open>email\<close> is lower-cased and one on \<open>username\<close> trimmed
  before the store compares them.
\<close>

definition findById :: "User list \<Rightarrow> objectId \<Rightarrow> User option" where
  "findById db i = find (\<lambda>a. u_id a = i) db"

text \<open>\<open>User.findOne({ email })\<close> of the login route.\<close>

definition findOne_email :: "User list \<Rightarrow> string \<Rightarrow> User option" where
  "findOne_email db e = find (\<lambda>a. email a = toLowerCase e) db"

text \<open>\<open>User.findOne({ $or: [{ email }, { username }] })\<close> of the signup route.\<close>

definition findOne_email_or_username :: "User list \<Rightarrow> string \<Rightarrow> string \<Rightarrow> User option" where
  "findOne_email_or_username db e u =
     find (\<lambda>a. email a = toLowerCase e \<or> username a = trim u) db"

text \<open>The write of a loaded document: the first account with its \<open>_id\<close> is replaced.\<close>

fun replaceById :: "User \<Rightarrow> User list \<Rightarrow> User list option" where
  "replaceById u [] = None"
| "replaceById u (x # xs) =
     (if u_id x = u_id u then Some (u # xs)
      else map_option (Cons x) (replaceById u xs))"

text \<open>
  The write of a new document: \<open>_id\<close> is unique in every collection, and the schema
  declares \<open>unique: true\<close> on \<open>username\<close> and \<open>email\<close>.
\<close>

definition insertOne :: "User \<Rightarrow> User list \<Rightarrow> exn + User list" where
  "insertOne u db =
     (if \<exists>a \<in> set db. u_id a = u_id u then Inl (DuplicateKeyError ''_id'')
      else if \<exists>a \<in> set db. email a = email u then Inl (DuplicateKeyError ''email'')
      else if \<exists>a \<in> set db. username a = username u then Inl (DuplicateKeyError ''username'')
      else Inr (db @ [u]))"

section \<open>Creating and saving a document (models/User.js)\<close>

record signup_body =
  b_username :: string
  b_email :: string
  b_password :: string
  b_firstName :: string
  b_lastName :: string

text \<open>
  \<open>new User({ username, email, password, firstName, lastName })\<close>: the setters of the
  schema run on the values given, the other paths take their defaults, and every path
  given counts as modified. The stamps and the version key are assigned by the first
  save; until then they are held at 0.
\<close>

definition new_User :: "objectId \<Rightarrow> signup_body \<Rightarrow> document" where
  "new_User i b =
     \<lparr>obj = \<lparr>u_id = i,
             username = trim (b_username b),
             email = toLowerCase (b_email b),
             password = Some (b_password b),
             firstName = trim (b_firstName b),
             lastName = trim (b_lastName b),
             profileImage = None,
             role = Role_user,
             isActive = True,
             refreshTokens = [],
             watchlist = [],
             favorites = [],
             watchHistory = [],
             preferences = \<lparr>genres = [], language = ''en'', autoplay = True\<rparr>,
             passwordResetToken = None,
             passwordResetExpires = None,
             u_createdAt = 0,
             u_updatedAt = 0,
             u_v = 0\<rparr>,
      isNew = True,
      modifiedPaths = [''username'', ''email'', ''password'', ''firstName'', ''lastName'']\<rparr>"

text \<open>
  The validators of the schema, path by path: \<open>required\<close> rejects the empty string,
  \<open>minlength\<close> and \<open>maxlength\<close> bound the length, \<open>match\<close> tests a non-empty value,
  \<open>max\<close> bounds the \<open>progress\<close> of each entry of \<open>watchHistory\<close> (\<open>min: 0\<close> holds of every
  natural number).
\<close>

definition path_valid :: "libs \<Rightarrow> User \<Rightarrow> string \<Rightarrow> bool" where
  "path_valid L u p =
     (if p = ''username'' then username u \<noteq> [] \<and> 3 \<le> length (username u) \<and> length (username u) \<le> 30
      else if p = ''email'' then email u \<noteq> [] \<and> email_regex_test L (email u)
      else if p = ''password'' then
        (case password u of None \<Rightarrow> False | Some pw \<Rightarrow> pw \<noteq> [] \<and> 6 \<le> length pw)
      else if p = ''firstName'' then firstName u \<noteq> [] \<and> length (firstName u) \<le> 50
      else if p = ''lastName'' then lastName u \<noteq> [] \<and> length (lastName u) \<le> 50
      else if p = ''watchHistory'' then list_all (\<lambda>h. progress h \<le> 100) (watchHistory u)
      else True)"

definition validated_paths :: "string list" where
  "validated_paths =
     [''username'', ''email'', ''password'', ''firstName'', ''lastName'', ''watchHistory'']"

text \<open>An account passes the schema when each path with a validator does.\<close>

definition account_valid :: "libs \<Rightarrow> User \<Rightarrow> bool" where
  "account_valid L u = list_all (path_valid L u) validated_paths"

text \<open>
  The validation that \<open>save()\<close> runs first. It covers the paths of the document whether
  they were modified or not, for a loaded document as for a new one; on a loaded
  document \<open>password\<close> holds the hash, and it is the hash that \<open>minlength\<close> measures.
\<close>

definition validate :: "libs \<Rightarrow> document \<Rightarrow> bool" where
  "validate L d = account_valid L (obj d)"

text \<open>
  \<open>userSchema.pre('save')\<close>: nothing happens unless \<open>password\<close> was modified; then the
  password is replaced by its hash under a new salt. An error of the library goes to
  \<open>next\<close>.
\<close>

definition pre_save :: "libs \<Rightarrow> config \<Rightarrow> request_env \<Rightarrow> document \<Rightarrow> exn + document" where
  "pre_save L C rq d =
     (if \<not> isModified ''password'' d then Inr d
      else case password (obj d) of
             None \<Rightarrow> Inl BcryptError
           | Some pw \<Rightarrow>
               let salt = bcrypt_genSalt L (BCRYPT_ROUNDS C) (entropy rq)
               in Inr (d\<lparr>obj := (obj d)\<lparr>password := Some (bcrypt_hash L pw salt)\<rparr>\<rparr>))"

text \<open>
  What the option \<open>timestamps: true\<close> and the versioning of arrays add to a write. A new
  document is inserted with both stamps at the present time and version 0. A write of a
  modified document sets \<open>updatedAt\<close> to the present time, and increments \<open>__v\<close> when an
  array of the document was set or pushed to.
\<close>

definition stamp_new :: "request_env \<Rightarrow> User \<Rightarrow> User" where
  "stamp_new rq u = u\<lparr>u_createdAt := clock rq, u_updatedAt := clock rq, u_v := 0\<rparr>"

definition stamp_modified :: "request_env \<Rightarrow> document \<Rightarrow> User" where
  "stamp_modified rq d =
     (obj d)\<lparr>u_updatedAt := clock rq,
             u_v := (if isModified ''refreshTokens'' d then u_v (obj d) + 1 else u_v (obj d))\<rparr>"

text \<open>
  \<open>doc.save()\<close>: validation, the pre-save hook, the write; afterwards the document is
  no longer new and no path counts as modified. A loaded document on which nothing was
  modified is not written.
\<close>

definition save :: "libs \<Rightarrow> config \<Rightarrow> request_env \<Rightarrow> document \<Rightarrow> User list
    \<Rightarrow> exn + (document \<times> User list)" where
  "save L C rq d db =
     (if \<not> validate L d then Inl (ValidationError ''User validation failed'')
      else case pre_save L C rq d of
             Inl e \<Rightarrow> Inl e
           | Inr d1 \<Rightarrow>
               (if isNew d1 then
                  (case insertOne (stamp_new rq (obj d1)) db of
                     Inl e \<Rightarrow> Inl e
                   | Inr db1 \<Rightarrow>
                       Inr (d1\<lparr>obj := stamp_new rq (obj d1), isNew := False,
                               modifiedPaths := []\<rparr>, db1))
                else if modifiedPaths d1 = [] then
                  (case findById db (u_id (obj d1)) of
                     None \<Rightarrow> Inl DocumentNotFoundError
                   | Some stored \<Rightarrow> Inr (d1, db))
                else
                  (case replaceById (stamp_modified rq d1) db of
                     None \<Rightarrow> Inl DocumentNotFoundError
                   | Some db1 \<Rightarrow>
                       Inr (d1\<lparr>obj := stamp_modified rq d1, modifiedPaths := []\<rparr>, db1))))"

text \<open>\<open>userSchema.methods.comparePassword\<close>; the library rejects an undefined hash.\<close>

definition comparePassword :: "libs \<Rightarrow> User \<Rightarrow> string \<Rightarrow> exn + bool" where
  "comparePassword L u candidatePassword =
     (case password u of
        None \<Rightarrow> Inl BcryptError
      | Some h \<Rightarrow> Inr (bcrypt_compare L candidatePassword h))"

text \<open>
  What a serialised account holds. \<open>toObject\<close> lists the defined paths of the document;
  \<open>userSchema.methods.toJSON\<close> deletes four of them.
\<close>

datatype field_value =
    VId objectId
  | VStr string
  | VBool bool
  | VNull
  | VDate date
  | VNum nat
  | VRole role
  | VTokens "refreshTokenEntry list"
  | VList "listItem list"
  | VHistory "historyItem list"
  | VPrefs preferences

definition opt_field :: "string \<Rightarrow> ('a \<Rightarrow> field_value) \<Rightarrow> 'a option \<Rightarrow> (string \<times> field_value) list" where
  "opt_field k f v = (case v of None \<Rightarrow> [] | Some x \<Rightarrow> [(k, f x)])"

definition toObject :: "User \<Rightarrow> (string \<times> field_value) list" where
  "toObject u =
     [(''_id'', VId (u_id u)),
      (''username'', VStr (username u)),
      (''email'', VStr (email u))]
     @ opt_field ''password'' VStr (password u)
     @ [(''firstName'', VStr (firstName u)),
        (''lastName'', VStr (lastName u)),
        (''profileImage'', (case profileImage u of None \<Rightarrow> VNull | Some s \<Rightarrow> VStr s)),
        (''role'', VRole (role u)),
        (''isActive'', VBool (isActive u)),
        (''refreshTokens'', VTokens (refreshTokens u)),
        (''watchlist'', VList (watchlist u)),
        (''favorites'', VList (favorites u)),
        (''watchHistory'', VHistory (watchHistory u)),
        (''preferences'', VPrefs (preferences u))]
     @ opt_field ''passwordResetToken'' VStr (passwordResetToken u)
     @ opt_field ''passwordResetExpires'' VDate (passwordResetExpires u)
     @ [(''createdAt'', VDate (u_createdAt u)),
        (''updatedAt'', VDate (u_updatedAt u)),
        (''__v'', VNum (u_v u))]"

definition delete_key :: "string \<Rightarrow> (string \<times> 'v) list \<Rightarrow> (string \<times> 'v) list" where
  "delete_key k kvs = filter (\<lambda>kv. fst kv \<noteq> k) kvs"

definition toJSON :: "User \<Rightarrow> (string \<times> field_value) list" where
  "toJSON u =
     delete_key ''passwordResetExpires''
       (delete_key ''passwordResetToken''
         (delete_key ''refreshTokens''
           (delete_key ''password'' (toObject u))))"

section \<open>The authentication routes (routes/users.js)\<close>

text \<open>
  A handler ends by sending a response, \<open>res.status(n).json(body)\<close>, or by handing an
  exception to the framework, \<open>next(error)\<close>. A \<open>user\<close> in a body is serialised through
  \<open>toJSON\<close>.
\<close>

datatype rval = RStr string | RUser "(string \<times> field_value) list"

datatype outcome = Sent nat "(string \<times> rval) list" | Forwarded exn

text \<open>\<open>generateTokens(userId)\<close>: the access token and the refresh token.\<close>

definition generateTokens :: "libs \<Rightarrow> config \<Rightarrow> request_env \<Rightarrow> objectId \<Rightarrow> string \<times> string" where
  "generateTokens L C rq userId =
     (jwt_sign L userId (JWT_ACCESS_SECRET C) (JWT_ACCESS_EXPIRES_IN C) (clock rq div 1000),
      jwt_sign L userId (JWT_REFRESH_SECRET C) (JWT_REFRESH_EXPIRES_IN C) (clock rq div 1000))"

text \<open>\<open>user.refreshTokens.push({ token })\<close>; \<open>createdAt\<close> takes its default, \<open>Date.now\<close>.\<close>

definition push_refreshToken :: "request_env \<Rightarrow> string \<Rightarrow> document \<Rightarrow> document" where
  "push_refreshToken rq t d =
     markModified ''refreshTokens''
       (d\<lparr>obj := (obj d)\<lparr>refreshTokens :=
              refreshTokens (obj d) @ [\<lparr>token = t, createdAt = clock rq\<rparr>]\<rparr>\<rparr>)"

text \<open>
  \<open>user.refreshTokens = value\<close>. Setting a path to a value equal to the one it holds does
  not mark it modified.
\<close>

definition set_refreshTokens :: "refreshTokenEntry list \<Rightarrow> document \<Rightarrow> document" where
  "set_refreshTokens v d =
     (if v = refreshTokens (obj d) then d
      else markModified ''refreshTokens'' (d\<lparr>obj := (obj d)\<lparr>refreshTokens := v\<rparr>\<rparr>))"

definition message :: "string \<Rightarrow> (string \<times> rval) list" where
  "message m = [(''message'', RStr m)]"

text \<open>
  \<open>router.post('/signup')\<close>, from the point where \<open>validateRequest(schemas.signup)\<close> has
  let the request through.
\<close>

definition signup :: "libs \<Rightarrow> config \<Rightarrow> request_env \<Rightarrow> signup_body \<Rightarrow> User list
    \<Rightarrow> User list \<times> outcome" where
  "signup L C rq b db =
     (case findOne_email_or_username db (b_email b) (b_username b) of
        Some existingUser \<Rightarrow>
          (db, Sent 400 (message (if email existingUser = b_email b
                                  then ''Email already registered''
                                  else ''Username already taken'')))
      | None \<Rightarrow>
          (case save L C rq (new_User (newId rq) b) db of
             Inl e \<Rightarrow> (db, Forwarded e)
           | Inr (user1, db1) \<Rightarrow>
               let (accessToken, refreshToken) = generateTokens L C rq (u_id (obj user1))
               in case save L C rq (push_refreshToken rq refreshToken user1) db1 of
                    Inl e \<Rightarrow> (db1, Forwarded e)
                  | Inr (user2, db2) \<Rightarrow>
                      (db2, Sent 201 [(''message'', RStr ''User registered successfully''),
                                      (''user'', RUser (toJSON (obj user2))),
                                      (''accessToken'', RStr accessToken),
                                      (''refreshToken'', RStr refreshToken)])))"

text \<open>
  \<open>router.post('/login')\<close>, after \<open>validateRequest(schemas.login)\<close>. The password is
  compared before the active flag is read.
\<close>

definition login :: "libs \<Rightarrow> config \<Rightarrow> request_env \<Rightarrow> string \<Rightarrow> string \<Rightarrow> User list
    \<Rightarrow> User list \<times> outcome" where
  "login L C rq e pw db =
     (case findOne_email db e of
        None \<Rightarrow> (db, Sent 401 (message ''Invalid credentials''))
      | Some a \<Rightarrow>
          (case comparePassword L a pw of
             Inl err \<Rightarrow> (db, Forwarded err)
           | Inr False \<Rightarrow> (db, Sent 401 (message ''Invalid credentials''))
           | Inr True \<Rightarrow>
               if \<not> isActive a then (db, Sent 401 (message ''Account deactivated''))
               else
                 let (accessToken, refreshToken) = generateTokens L C rq (u_id a)
                 in case save L C rq (push_refreshToken rq refreshToken (hydrate a)) db of
                      Inl err \<Rightarrow> (db, Forwarded err)
                    | Inr (user1, db1) \<Rightarrow>
                        let user2 = user1\<lparr>obj := (obj user1)\<lparr>password := None\<rparr>\<rparr>
                        in (db1, Sent 200 [(''message'', RStr ''Login successful''),
                                           (''user'', RUser (toJSON (obj user2))),
                                           (''accessToken'', RStr accessToken),
                                           (''refreshToken'', RStr refreshToken)])))"

text \<open>
  \<open>router.post('/refresh-token')\<close>. The body's \<open>refreshToken\<close> is absent or a string; an
  exception of \<open>jwt.verify\<close> is caught and handed to \<open>next\<close>.
\<close>

definition refresh_token :: "libs \<Rightarrow> config \<Rightarrow> request_env \<Rightarrow> string option \<Rightarrow> User list
    \<Rightarrow> User list \<times> outcome" where
  "refresh_token L C rq body_refreshToken db =
     (if \<not> truthy body_refreshToken then (db, Sent 401 (message ''Refresh token required''))
      else
        let refreshToken = str_of body_refreshToken
        in case jwt_verify L refreshToken (JWT_REFRESH_SECRET C) (clock rq div 1000) of
             Inl err \<Rightarrow> (db, Forwarded (JwtError err))
           | Inr userId \<Rightarrow>
               (case findById db userId of
                  None \<Rightarrow> (db, Sent 403 (message ''Invalid refresh token''))
                | Some a \<Rightarrow>
                    if \<not> list_ex (\<lambda>tk. token tk = refreshToken) (refreshTokens a)
                    then (db, Sent 403 (message ''Invalid refresh token''))
                    else
                      let tokens = generateTokens L C rq (u_id a);
                          user1 = set_refreshTokens
                                    (filter (\<lambda>tk. token tk \<noteq> refreshToken) (refreshTokens a))
                                    (hydrate a);
                          user2 = push_refreshToken rq (snd tokens) user1
                      in case save L C rq user2 db of
                           Inl err \<Rightarrow> (db, Forwarded err)
                         | Inr (user3, db1) \<Rightarrow>
                             (db1, Sent 200 [(''accessToken'', RStr (fst tokens)),
                                             (''refreshToken'', RStr (snd tokens))])))"

text \<open>
  \<open>router.post('/logout')\<close>, after \<open>authenticateToken\<close>: \<open>authId\<close> is the identity that
  middleware attached to the request, \<open>req.user.userId || req.user._id\<close>.
\<close>

definition logout :: "libs \<Rightarrow> config \<Rightarrow> request_env \<Rightarrow> objectId \<Rightarrow> string option \<Rightarrow> User list
    \<Rightarrow> User list \<times> outcome" where
  "logout L C rq authId body_refreshToken db =
     (case findById db authId of
        None \<Rightarrow> (db, Sent 404 (message ''User not found''))
      | Some a \<Rightarrow>
          let user1 =
                (if truthy body_refreshToken
                 then set_refreshTokens
                        (filter (\<lambda>tk. token tk \<noteq> str_of body_refreshToken) (refreshTokens a))
                        (hydrate a)
                 else set_refreshTokens [] (hydrate a))
          in case save L C rq user1 db of
               Inl err \<Rightarrow> (db, Forwarded err)
             | Inr (user2, db1) \<Rightarrow> (db1, Sent 200 (message ''Logged out successfully'')))"

text \<open>The failures of the specification, as the responses the routes send for them.\<close>

definition InvalidCredentials :: outcome where
  "InvalidCredentials = Sent 401 (message ''Invalid credentials'')"

definition AccountDeactivated :: outcome where
  "AccountDeactivated = Sent 401 (message ''Account deactivated'')"

definition MissingToken :: outcome where
  "MissingToken = Sent 401 (message ''Refresh token required'')"

definition InvalidToken :: outcome where
  "InvalidToken = Sent 403 (message ''Invalid refresh token'')"

definition DuplicateIdentity :: "string \<Rightarrow> outcome" where
  "DuplicateIdentity m = Sent 400 (message m)"

definition tokenPair :: "string \<times> string \<Rightarrow> (string \<times> rval) list" where
  "tokenPair tokens = [(''accessToken'', RStr (fst tokens)), (''refreshToken'', RStr (snd tokens))]"

section \<open>The error-handling middleware\<close>

text \<open>
  Modelled from the spec: the middleware that answers a request whose handler called
  \<open>next(error)\<close> is not among the sources. The specification lets a refresh token that
  fails verification (malformed, expired, wrong signing key) fail with \<open>InvalidToken\<close>,
  status 403, indistinguishable from a revoked or rotated one. It says nothing of the
  other exceptions, which are left as they are.
\<close>

definition errorHandler :: "exn \<Rightarrow> outcome" where
  "errorHandler e = (case e of JwtError err \<Rightarrow> InvalidToken | _ \<Rightarrow> Forwarded e)"

definition answer :: "outcome \<Rightarrow> outcome" where
  "answer r = (case r of Forwarded e \<Rightarrow> errorHandler e | Sent n body \<Rightarrow> Sent n body)"

section \<open>An instance of the libraries, to run the routes on concrete requests\<close>

text \<open>
  A small instance of the parameters. A token spells out, after the key, the user id,
  the second of issue and the lifetime in unary; it verifies under the key it was signed
  with until its lifetime has passed. A hash is a two-character salt followed by the
  reversed password.
\<close>

definition toy_sign :: "objectId \<Rightarrow> string \<Rightarrow> string \<Rightarrow> nat \<Rightarrow> string" where
  "toy_sign userId secret expiresIn iat =
     secret @ ''.'' @ replicate userId (CHR ''u'') @ ''.'' @ replicate iat (CHR ''s'')
       @ ''.'' @ replicate (length expiresIn) (CHR ''e'')"

definition toy_verify :: "string \<Rightarrow> string \<Rightarrow> nat \<Rightarrow> jwt_error + objectId" where
  "toy_verify tok secret t =
     (if take (length secret + 1) tok \<noteq> secret @ ''.'' then Inl JsonWebTokenError
      else
        let r = drop (length secret + 1) tok;
            us = takeWhile (\<lambda>c. c = CHR ''u'') r;
            r1 = dropWhile (\<lambda>c. c = CHR ''u'') r;
            ss = takeWhile (\<lambda>c. c = CHR ''s'') (drop 1 r1);
            r2 = dropWhile (\<lambda>c. c = CHR ''s'') (drop 1 r1);
            es = drop 1 r2
        in if take 1 r1 \<noteq> ''.'' \<or> take 1 r2 \<noteq> ''.'' \<or> \<not> list_all (\<lambda>c. c = CHR ''e'') es
           then Inl JsonWebTokenError
           else if length ss + length es \<le> t then Inl TokenExpiredError
           else Inr (length us))"

definition toy_libs :: libs where
  "toy_libs =
     \<lparr>jwt_sign = toy_sign,
      jwt_verify = toy_verify,
      bcrypt_genSalt = (\<lambda>rounds seed. take 2 (seed @ ''..'')),
      bcrypt_hash = (\<lambda>pw salt. take 2 (salt @ ''..'') @ rev pw),
      bcrypt_compare = (\<lambda>candidate h. 2 \<le> length h \<and> drop 2 h = rev candidate),
      email_regex_test = (\<lambda>e. CHR ''@'' \<in> set e)\<rparr>"

definition toy_config :: config where
  "toy_config =
     \<lparr>JWT_ACCESS_SECRET = ''A'',
      JWT_ACCESS_EXPIRES_IN = ''1m'',
      JWT_REFRESH_SECRET = ''R'',
      JWT_REFRESH_EXPIRES_IN = ''7d'',
      BCRYPT_ROUNDS = 10\<rparr>"

definition at_time :: "date \<Rightarrow> request_env" where
  "at_time t = \<lparr>clock = t, newId = 2, entropy = ''zq''\<rparr>"

text \<open>
  An account as the signup route stored it at 500 ms, after a logout at 900 ms that
  closed its session.
\<close>

definition alice :: User where
  "alice =
     \<lparr>u_id = 1,
      username = ''alice'',
      email = ''alice@x.com'',
      password = Some ''zq1terces'',
      firstName = ''A'',
      lastName = ''B'',
      profileImage = None,
      role = Role_user,
      isActive = True,
      refreshTokens = [],
      watchlist = [],
      favorites = [],
      watchHistory = [],
      preferences = \<lparr>genres = [], language = ''en'', autoplay = True\<rparr>,
      passwordResetToken = None,
      passwordResetExpires = None,
      u_createdAt = 500,
      u_updatedAt = 900,
      u_v = 2\<rparr>"

definition carol_request :: signup_body where
  "carol_request =
     \<lparr>b_username = ''carol'', b_email = ''Alice@X.com'', b_password = ''secret2'',
      b_firstName = ''C'', b_lastName = ''D''\<rparr>"

definition alice_request :: signup_body where
  "alice_request =
     \<lparr>b_username = ''alice'', b_email = ''alice@x.com'', b_password = ''secret1'',
      b_firstName = ''A'', b_lastName = ''B''\<rparr>"

text \<open>A deactivated account that still holds a refresh token issued in second 1.\<close>

definition bob :: User where
  "bob = alice\<lparr>u_id := 3, username := ''bob'', email := ''bob@x.com'', isActive := False,
                refreshTokens := [\<lparr>token = ''R.uuu.s.ee'', createdAt = 1000\<rparr>],
                u_updatedAt := 1000, u_v := 3\<rparr>"

text \<open>An account with two sessions open, one from second 0 and one from second 1.\<close>

definition dana :: User where
  "dana = alice\<lparr>u_id := 4, username := ''dana'', email := ''dana@x.com'',
                 refreshTokens := [\<lparr>token = ''R.uuuu..ee'', createdAt = 950\<rparr>,
                                   \<lparr>token = ''R.uuuu.s.ee'', createdAt = 1000\<rparr>],
                 u_updatedAt := 1000, u_v := 4\<rparr>"

text \<open>
  A session of \<open>alice\<close>: she logs in at 1000 ms and presents the refresh token she was
  given at 1400 ms, within the same second.
\<close>

definition db_after_login :: "User list" where
  "db_after_login =
     fst (login toy_libs toy_config (at_time 1000) ''alice@x.com'' ''secret1'' [alice])"

definition db_after_refresh :: "User list" where
  "db_after_refresh =
     fst (refresh_token toy_libs toy_config (at_time 1400) (Some ''R.u.s.ee'') db_after_login)"

section \<open>The store and the save of a document\<close>

lemma findById_split:
  "findById db i = Some a \<Longrightarrow>
     \<exists>pre post. db = pre @ a # post \<and> (\<forall>x \<in> set pre. u_id x \<noteq> i) \<and> u_id a = i"
proof (induction db)
  case Nil
  then show ?case by (simp add: findById_def)
next
  case (Cons x xs)
  show ?case
  proof (cases "u_id x = i")
    case True
    then have "a = x" using Cons.prems by (simp add: findById_def)
    then have "x # xs = [] @ a # xs \<and> (\<forall>y \<in> set []. u_id y \<noteq> i) \<and> u_id a = i"
      using True by simp
    then show ?thesis by blast
  next
    case False
    then have "findById xs i = Some a" using Cons.prems by (simp add: findById_def)
    then obtain pre post where
      h: "xs = pre @ a # post" "\<forall>y \<in> set pre. u_id y \<noteq> i" "u_id a = i"
      using Cons.IH by blast
    have "x # xs = (x # pre) @ a # post \<and> (\<forall>y \<in> set (x # pre). u_id y \<noteq> i) \<and> u_id a = i"
      using h False by simp
    then show ?thesis by blast
  qed
qed

lemma findById_at:
  "\<forall>x \<in> set pre. u_id x \<noteq> i \<Longrightarrow> u_id a = i \<Longrightarrow> findById (pre @ a # post) i = Some a"
  by (induction pre) (simp_all add: findById_def)

lemma findById_elsewhere:
  "u_id a = u_id u \<Longrightarrow> j \<noteq> u_id u \<Longrightarrow>
     findById (pre @ u # post) j = findById (pre @ a # post) j"
  by (induction pre) (simp_all add: findById_def)

lemma replaceById_at:
  "\<forall>x \<in> set pre. u_id x \<noteq> u_id u \<Longrightarrow> u_id a = u_id u \<Longrightarrow>
     replaceById u (pre @ a # post) = Some (pre @ u # post)"
  by (induction pre) simp_all

text \<open>Whether an account passes the schema does not depend on its tokens or stamps.\<close>

lemma account_valid_frame:
  "account_valid L (a\<lparr>refreshTokens := v\<rparr>) = account_valid L a"
  "account_valid L (a\<lparr>u_updatedAt := s\<rparr>) = account_valid L a"
  "account_valid L (a\<lparr>u_createdAt := c\<rparr>) = account_valid L a"
  "account_valid L (a\<lparr>u_v := n\<rparr>) = account_valid L a"
  by (simp_all add: account_valid_def validated_paths_def path_valid_def)

lemma pre_save_untouched:
  "\<not> isModified ''password'' d \<Longrightarrow> pre_save L C rq d = Inr d"
  by (simp add: pre_save_def)

lemma save_invalid:
  "\<not> account_valid L (obj d) \<Longrightarrow>
     save L C rq d db = Inl (ValidationError ''User validation failed'')"
  by (simp add: save_def validate_def)

lemma save_Inr_valid: "save L C rq d db = Inr r \<Longrightarrow> account_valid L (obj d)"
  by (simp add: save_def validate_def split: if_splits)

text \<open>
  Saving a loaded document that passes the schema and on which only \<open>refreshTokens\<close>
  was modified: the hook leaves the password alone, and the stored account is
  replaced by the document's object with a new \<open>updatedAt\<close> and the next version.
\<close>

lemma save_loaded:
  assumes "\<not> isNew d" and "modifiedPaths d \<noteq> []"
    and "set (modifiedPaths d) \<subseteq> {''refreshTokens''}"
    and "account_valid L (obj d)"
    and "\<forall>x \<in> set pre. u_id x \<noteq> u_id (obj d)" and "u_id a = u_id (obj d)"
  shows "save L C rq d (pre @ a # post) =
           Inr (d\<lparr>obj := (obj d)\<lparr>u_updatedAt := clock rq, u_v := u_v (obj d) + 1\<rparr>,
                  modifiedPaths := []\<rparr>,
                pre @ (obj d)\<lparr>u_updatedAt := clock rq, u_v := u_v (obj d) + 1\<rparr> # post)"
proof -
  have v: "validate L d" using assms(4) by (simp add: validate_def)
  have "''password'' \<notin> set (modifiedPaths d)" using assms(3) by auto
  then have p: "pre_save L C rq d = Inr d" by (simp add: pre_save_untouched isModified_def)
  obtain q qs where "modifiedPaths d = q # qs" using assms(2) by (cases "modifiedPaths d") auto
  with assms(3) have m: "isModified ''refreshTokens'' d" by (auto simp: isModified_def)
  then have st: "stamp_modified rq d = (obj d)\<lparr>u_updatedAt := clock rq, u_v := u_v (obj d) + 1\<rparr>"
    by (simp add: stamp_modified_def)
  have r: "replaceById (stamp_modified rq d) (pre @ a # post)
             = Some (pre @ stamp_modified rq d # post)"
    using assms(5,6) by (intro replaceById_at) (simp_all add: st)
  show ?thesis using assms(1,2) v p r unfolding save_def by (simp add: st)
qed

text \<open>Saving a loaded document on which nothing was modified writes nothing.\<close>

lemma save_unmodified:
  assumes "\<not> isNew d" and "modifiedPaths d = []" and "account_valid L (obj d)"
    and "findById db (u_id (obj d)) = Some a"
  shows "save L C rq d db = Inr (d, db)"
proof -
  have v: "validate L d" using assms(3) by (simp add: validate_def)
  have p: "pre_save L C rq d = Inr d"
    using assms(2) by (simp add: pre_save_untouched isModified_def)
  show ?thesis using assms(1,2,4) v p unfolding save_def by simp
qed

lemma save_Inr_id:
  "save L C rq d db = Inr (d', db') \<Longrightarrow> u_id (obj d') = u_id (obj d)"
  by (auto simp: save_def pre_save_def stamp_new_def stamp_modified_def Let_def
           split: if_splits sum.splits option.splits)


text \<open>The routes on a store split at the account they load.\<close>

lemma logout_found:
  assumes "\<forall>x \<in> set pre. u_id x \<noteq> authId" and "u_id a = authId" and "account_valid L a"
  shows "logout L C rq authId rt (pre @ a # post) =
           (pre @ (if (if truthy rt then filter (\<lambda>tk. token tk \<noteq> str_of rt) (refreshTokens a)
                       else []) = refreshTokens a
                   then a
                   else a\<lparr>refreshTokens :=
                            (if truthy rt then filter (\<lambda>tk. token tk \<noteq> str_of rt) (refreshTokens a)
                             else []),
                          u_updatedAt := clock rq, u_v := u_v a + 1\<rparr>) # post,
            Sent 200 (message ''Logged out successfully''))"
proof -
  let ?v = "if truthy rt then filter (\<lambda>tk. token tk \<noteq> str_of rt) (refreshTokens a) else []"
  let ?d = "set_refreshTokens ?v (hydrate a)"
  have f: "findById (pre @ a # post) authId = Some a"
    using assms(1,2) by (rule findById_at)
  have lo: "logout L C rq authId rt (pre @ a # post) =
              (case save L C rq ?d (pre @ a # post) of
                 Inl err \<Rightarrow> (pre @ a # post, Forwarded err)
               | Inr (user2, db1) \<Rightarrow> (db1, Sent 200 (message ''Logged out successfully'')))"
    unfolding logout_def f by (simp add: Let_def)
  show ?thesis
  proof (cases "?v = refreshTokens a")
    case True
    then have d: "?d = hydrate a" by (simp add: set_refreshTokens_def hydrate_def)
    have "save L C rq (hydrate a) (pre @ a # post) = Inr (hydrate a, pre @ a # post)"
      using f assms(2,3) by (intro save_unmodified [where a = a]) (simp_all add: hydrate_def)
    then show ?thesis using True unfolding lo d by simp
  next
    case False
    then have d1: "\<not> isNew ?d" and d2: "modifiedPaths ?d \<noteq> []"
      and d3: "set (modifiedPaths ?d) \<subseteq> {''refreshTokens''}"
      and d4: "obj ?d = a\<lparr>refreshTokens := ?v\<rparr>"
      by (simp_all add: set_refreshTokens_def hydrate_def markModified_def)
    have d5: "account_valid L (obj ?d)" and d6: "u_id (obj ?d) = authId"
      using assms(2,3) by (simp_all add: d4 account_valid_frame)
    have "save L C rq ?d (pre @ a # post) =
           Inr (?d\<lparr>obj := (obj ?d)\<lparr>u_updatedAt := clock rq, u_v := u_v (obj ?d) + 1\<rparr>,
                  modifiedPaths := []\<rparr>,
                pre @ (obj ?d)\<lparr>u_updatedAt := clock rq, u_v := u_v (obj ?d) + 1\<rparr> # post)"
      using d1 d2 d3 d5 assms(1,2) d6 by (intro save_loaded) simp_all
    then show ?thesis using False unfolding lo by (simp add: d4)
  qed
qed

lemma logout_invalid:
  assumes "findById db authId = Some a" and "\<not> account_valid L a"
  shows "logout L C rq authId rt db = (db, Forwarded (ValidationError ''User validation failed''))"
proof -
  let ?v = "if truthy rt then filter (\<lambda>tk. token tk \<noteq> str_of rt) (refreshTokens a) else []"
  have "\<not> account_valid L (obj (set_refreshTokens ?v (hydrate a)))"
    using assms(2)
    by (simp add: set_refreshTokens_def hydrate_def markModified_def account_valid_frame)
  then have "save L C rq (set_refreshTokens ?v (hydrate a)) db
               = Inl (ValidationError ''User validation failed'')"
    by (rule save_invalid)
  then show ?thesis using assms(1) by (cases "truthy rt") (simp_all add: logout_def Let_def)
qed

lemma refresh_token_found:
  assumes "\<forall>x \<in> set pre. u_id x \<noteq> userId" and "u_id a = userId" and "t \<noteq> []"
    and "jwt_verify L t (JWT_REFRESH_SECRET C) (clock rq div 1000) = Inr userId"
    and "list_ex (\<lambda>tk. token tk = t) (refreshTokens a)"
    and "account_valid L a"
  shows "refresh_token L C rq (Some t) (pre @ a # post) =
           (pre @ a\<lparr>refreshTokens :=
                      filter (\<lambda>tk. token tk \<noteq> t) (refreshTokens a)
                        @ [\<lparr>token = snd (generateTokens L C rq userId), createdAt = clock rq\<rparr>],
                    u_updatedAt := clock rq, u_v := u_v a + 1\<rparr> # post,
            Sent 200 (tokenPair (generateTokens L C rq userId)))"
proof -
  have f: "findById (pre @ a # post) userId = Some a"
    using assms(1,2) by (rule findById_at)
  define d where "d = push_refreshToken rq (snd (generateTokens L C rq userId))
                        (set_refreshTokens
                                    (filter (\<lambda>tk. token tk \<noteq> t) (refreshTokens a))
                                    (hydrate a))"
  have d1: "\<not> isNew d" and d2: "modifiedPaths d \<noteq> []"
    and d3: "set (modifiedPaths d) \<subseteq> {''refreshTokens''}"
    and d4: "obj d = a\<lparr>refreshTokens :=
                      filter (\<lambda>tk. token tk \<noteq> t) (refreshTokens a)
                        @ [\<lparr>token = snd (generateTokens L C rq userId), createdAt = clock rq\<rparr>]\<rparr>"
    by (simp_all add: d_def push_refreshToken_def set_refreshTokens_def hydrate_def markModified_def)
  have d5: "account_valid L (obj d)" and d6: "u_id (obj d) = userId"
    using assms(2,6) by (simp_all add: d4 account_valid_frame)
  have s: "save L C rq d (pre @ a # post) =
           Inr (d\<lparr>obj := (obj d)\<lparr>u_updatedAt := clock rq, u_v := u_v (obj d) + 1\<rparr>,
                  modifiedPaths := []\<rparr>,
                pre @ (obj d)\<lparr>u_updatedAt := clock rq, u_v := u_v (obj d) + 1\<rparr> # post)"
    using d1 d2 d3 d5 assms(1,2) d6 by (intro save_loaded) simp_all
  show ?thesis
    unfolding refresh_token_def using f s assms(2,3,4,5) unfolding d_def [symmetric]
    by (simp add: Let_def tokenPair_def d_def [symmetric] d4)
qed

lemma refresh_token_invalid:
  assumes "findById db userId = Some a" and "t \<noteq> []"
    and "jwt_verify L t (JWT_REFRESH_SECRET C) (clock rq div 1000) = Inr userId"
    and "list_ex (\<lambda>tk. token tk = t) (refreshTokens a)"
    and "\<not> account_valid L a"
  shows "refresh_token L C rq (Some t) db
           = (db, Forwarded (ValidationError ''User validation failed''))"
proof -
  define d where "d = push_refreshToken rq (snd (generateTokens L C rq (u_id a)))
                        (set_refreshTokens
                                    (filter (\<lambda>tk. token tk \<noteq> t) (refreshTokens a))
                                    (hydrate a))"
  have "\<not> account_valid L (obj d)"
    using assms(5)
    by (simp add: d_def push_refreshToken_def set_refreshTokens_def hydrate_def markModified_def
          account_valid_frame)
  then have "save L C rq d db = Inl (ValidationError ''User validation failed'')"
    by (rule save_invalid)
  then show ?thesis
    using assms(1,2,3,4) by (simp add: refresh_token_def Let_def d_def)
qed


lemma isModified_new_password: "isModified ''password'' (new_User i b)"
  by (simp add: isModified_def new_User_def)

lemma insertOne_Inr:
  "insertOne u db = Inr db1 \<Longrightarrow> db1 = db @ [u] \<and> (\<forall>x \<in> set db. u_id x \<noteq> u_id u)"
  by (auto simp: insertOne_def split: if_splits)

text \<open>
  The first save of a new document stores it with the password hashed once, both stamps
  at the present time and version 0.
\<close>

lemma save_new:
  assumes "save L C rq (new_User i b) db = Inr (user1, db1)"
  shows "user1 = \<lparr>obj = (obj (new_User i b))\<lparr>password :=
                        Some (bcrypt_hash L (b_password b)
                               (bcrypt_genSalt L (BCRYPT_ROUNDS C) (entropy rq))),
                        u_createdAt := clock rq, u_updatedAt := clock rq, u_v := 0\<rparr>,
                  isNew = False, modifiedPaths = []\<rparr>
         \<and> db1 = db @ [obj user1] \<and> (\<forall>x \<in> set db. u_id x \<noteq> i)"
proof -
  let ?h = "(obj (new_User i b))\<lparr>password :=
                        Some (bcrypt_hash L (b_password b)
                               (bcrypt_genSalt L (BCRYPT_ROUNDS C) (entropy rq)))\<rparr>"
  let ?o = "?h\<lparr>u_createdAt := clock rq, u_updatedAt := clock rq, u_v := 0\<rparr>"
  have p: "pre_save L C rq (new_User i b) = Inr ((new_User i b)\<lparr>obj := ?h\<rparr>)"
    using isModified_new_password [of i b]
    by (simp add: pre_save_def Let_def) (simp add: new_User_def)
  have n: "isNew ((new_User i b)\<lparr>obj := ?h\<rparr>)" by (simp add: new_User_def)
  have st: "stamp_new rq ?h = ?o" by (simp add: stamp_new_def)
  have v: "validate L (new_User i b)"
    using assms unfolding save_def by (simp split: if_splits)
  from assms v p n obtain dbA where
    i: "insertOne ?o db = Inr dbA"
    and r: "(user1, db1) = (((new_User i b)\<lparr>obj := ?h\<rparr>)\<lparr>obj := ?o, isNew := False,
                               modifiedPaths := []\<rparr>, dbA)"
    unfolding save_def by (simp add: st split: sum.splits)
  from insertOne_Inr [OF i] have a: "dbA = db @ [?o]"
    and f: "\<forall>x \<in> set db. u_id x \<noteq> u_id ?o"
    by blast+
  have u: "u_id ?o = i" by (simp add: new_User_def)
  from r have u1: "user1 = \<lparr>obj = ?o, isNew = False, modifiedPaths = []\<rparr>"
    by (simp add: new_User_def)
  from r a have "db1 = db @ [?o]" by simp
  then show ?thesis using u1 f u by simp
qed

text \<open>What a successful signup has done.\<close>

lemma signup_created:
  assumes "signup L C rq b db = (db1, Sent 201 body)"
  shows "findOne_email_or_username db (b_email b) (b_username b) = None
       \<and> (\<forall>x \<in> set db. u_id x \<noteq> newId rq)
       \<and> db1 = db @ [(obj (new_User (newId rq) b))
                       \<lparr>password := Some (bcrypt_hash L (b_password b)
                                           (bcrypt_genSalt L (BCRYPT_ROUNDS C) (entropy rq))),
                        refreshTokens := [\<lparr>token = snd (generateTokens L C rq (newId rq)),
                                           createdAt = clock rq\<rparr>],
                        u_createdAt := clock rq, u_updatedAt := clock rq, u_v := 1\<rparr>]
       \<and> body = [(''message'', RStr ''User registered successfully''),
                 (''user'', RUser (toJSON (last db1))),
                 (''accessToken'', RStr (fst (generateTokens L C rq (newId rq)))),
                 (''refreshToken'', RStr (snd (generateTokens L C rq (newId rq))))]"
proof -
  let ?o1 = "(obj (new_User (newId rq) b))\<lparr>password :=
                        Some (bcrypt_hash L (b_password b)
                               (bcrypt_genSalt L (BCRYPT_ROUNDS C) (entropy rq))),
                        u_createdAt := clock rq, u_updatedAt := clock rq, u_v := 0\<rparr>"
  let ?rt = "snd (generateTokens L C rq (newId rq))"
  have none: "findOne_email_or_username db (b_email b) (b_username b) = None"
    using assms unfolding signup_def by (simp split: option.splits)
  obtain user1 dbA where s1: "save L C rq (new_User (newId rq) b) db = Inr (user1, dbA)"
    using assms none unfolding signup_def by (auto split: sum.splits)
  from save_new [OF s1] have u1: "user1 = \<lparr>obj = ?o1, isNew = False, modifiedPaths = []\<rparr>"
    and dbA: "dbA = db @ [obj user1]" and fresh: "\<forall>x \<in> set db. u_id x \<noteq> newId rq"
    by blast+
  have id1: "u_id ?o1 = newId rq" and rt1: "refreshTokens ?o1 = []" and v1: "u_v ?o1 = 0"
    by (simp_all add: new_User_def)
  define d where "d = push_refreshToken rq ?rt user1"
  have d1: "\<not> isNew d" and d2: "modifiedPaths d \<noteq> []"
    and d3: "set (modifiedPaths d) \<subseteq> {''refreshTokens''}"
    and d4: "obj d = ?o1\<lparr>refreshTokens := [\<lparr>token = ?rt, createdAt = clock rq\<rparr>]\<rparr>"
    using rt1 by (simp_all add: d_def u1 push_refreshToken_def markModified_def)
  have d6: "u_id (obj d) = newId rq" using id1 by (simp add: d4)
  obtain user2 db2 where s2: "save L C rq d dbA = Inr (user2, db2)"
    using assms none s1 u1 id1 unfolding signup_def d_def
    by (auto simp: split_beta split: sum.splits)
  from save_Inr_valid [OF s2] have d5: "account_valid L (obj d)" .
  have "save L C rq d (db @ obj user1 # []) =
           Inr (d\<lparr>obj := (obj d)\<lparr>u_updatedAt := clock rq, u_v := u_v (obj d) + 1\<rparr>,
                  modifiedPaths := []\<rparr>,
                db @ (obj d)\<lparr>u_updatedAt := clock rq, u_v := u_v (obj d) + 1\<rparr> # [])"
    using d1 d2 d3 d5 fresh d6 id1 by (intro save_loaded) (simp_all add: u1)
  with s2 have r2: "user2 = d\<lparr>obj := (obj d)\<lparr>u_updatedAt := clock rq, u_v := u_v (obj d) + 1\<rparr>,
                  modifiedPaths := []\<rparr>"
    and db2: "db2 = db @ [(obj d)\<lparr>u_updatedAt := clock rq, u_v := u_v (obj d) + 1\<rparr>]"
    by (simp_all add: dbA)
  let ?stored = "(obj (new_User (newId rq) b))
                       \<lparr>password := Some (bcrypt_hash L (b_password b)
                                           (bcrypt_genSalt L (BCRYPT_ROUNDS C) (entropy rq))),
                        refreshTokens := [\<lparr>token = ?rt, createdAt = clock rq\<rparr>],
                        u_createdAt := clock rq, u_updatedAt := clock rq, u_v := 1\<rparr>"
  have st: "(obj d)\<lparr>u_updatedAt := clock rq, u_v := u_v (obj d) + 1\<rparr> = ?stored"
    using v1 by (simp add: d4)
  have "signup L C rq b db =
          (db @ [?stored], Sent 201 [(''message'', RStr ''User registered successfully''),
                 (''user'', RUser (toJSON ?stored)),
                 (''accessToken'', RStr (fst (generateTokens L C rq (newId rq)))),
                 (''refreshToken'', RStr ?rt)])"
    unfolding signup_def using none s1 s2 [unfolded d_def] u1 id1 r2 db2 st
    by (simp add: split_beta)
  with assms have "db1 = db @ [?stored]"
    and "body = [(''message'', RStr ''User registered successfully''),
                 (''user'', RUser (toJSON ?stored)),
                 (''accessToken'', RStr (fst (generateTokens L C rq (newId rq)))),
                 (''refreshToken'', RStr ?rt)]"
    by simp_all
  then show ?thesis using none fresh by simp
qed

lemma signup_existing:
  "findOne_email_or_username db (b_email b) (b_username b) = Some x \<Longrightarrow>
     signup L C rq b db =
       (db, DuplicateIdentity (if email x = b_email b then ''Email already registered''
                               else ''Username already taken''))"
  by (simp add: signup_def DuplicateIdentity_def)

lemma toJSON_no_password: "''password'' \<notin> fst ` set (toJSON u)"
  by (auto simp: toJSON_def delete_key_def)

section \<open>Login\<close>

text \<open>
  C2. A login fails with the same \<open>InvalidCredentials\<close> response when no account has the
  email and when the password does not match the stored hash, whether or not the account
  is active; when the password matches and the active flag is false it fails with
  \<open>AccountDeactivated\<close>, a different response. The store is left as it was.
\<close>

theorem login_failures:
  "((\<forall>a \<in> set db. email a \<noteq> toLowerCase e) \<longrightarrow>
       login L C rq e pw db = (db, InvalidCredentials))
   \<and> (findOne_email db e = Some a \<and> password a = Some h \<and> \<not> bcrypt_compare L pw h \<longrightarrow>
       login L C rq e pw db = (db, InvalidCredentials))
   \<and> (findOne_email db e = Some a \<and> password a = Some h \<and> bcrypt_compare L pw h
        \<and> \<not> isActive a \<longrightarrow>
       login L C rq e pw db = (db, AccountDeactivated))
   \<and> AccountDeactivated \<noteq> InvalidCredentials"
proof (intro conjI impI)
  assume "\<forall>a \<in> set db. email a \<noteq> toLowerCase e"
  then have "findOne_email db e = None"
    by (simp add: findOne_email_def find_None_iff)
  then show "login L C rq e pw db = (db, InvalidCredentials)"
    by (simp add: login_def InvalidCredentials_def)
next
  assume "findOne_email db e = Some a \<and> password a = Some h \<and> \<not> bcrypt_compare L pw h"
  then show "login L C rq e pw db = (db, InvalidCredentials)"
    by (simp add: login_def comparePassword_def InvalidCredentials_def)
next
  assume "findOne_email db e = Some a \<and> password a = Some h \<and> bcrypt_compare L pw h
        \<and> \<not> isActive a"
  then show "login L C rq e pw db = (db, AccountDeactivated)"
    by (simp add: login_def comparePassword_def AccountDeactivated_def)
next
  show "AccountDeactivated \<noteq> InvalidCredentials"
    by (simp add: AccountDeactivated_def InvalidCredentials_def message_def)
qed

theorem login_failures_witness:
  "login toy_libs toy_config (at_time 1000) ''nobody@x.com'' ''secret1'' [alice, bob]
     = ([alice, bob], InvalidCredentials)
   \<and> login toy_libs toy_config (at_time 1000) ''Alice@X.com'' ''secret2'' [alice, bob]
     = ([alice, bob], InvalidCredentials)
   \<and> login toy_libs toy_config (at_time 1000) ''bob@x.com'' ''secret2'' [alice, bob]
     = ([alice, bob], InvalidCredentials)
   \<and> login toy_libs toy_config (at_time 1000) ''bob@x.com'' ''secret1'' [alice, bob]
     = ([alice, bob], AccountDeactivated)"
proof -
  have h1: "\<forall>a \<in> set [alice, bob]. email a \<noteq> toLowerCase ''nobody@x.com''"
    by code_simp
  have h2: "findOne_email [alice, bob] ''Alice@X.com'' = Some alice
            \<and> password alice = Some ''zq1terces''
            \<and> \<not> bcrypt_compare toy_libs ''secret2'' ''zq1terces''"
    by code_simp
  have h3: "findOne_email [alice, bob] ''bob@x.com'' = Some bob
            \<and> password bob = Some ''zq1terces''
            \<and> \<not> bcrypt_compare toy_libs ''secret2'' ''zq1terces''"
    by code_simp
  have h4: "findOne_email [alice, bob] ''bob@x.com'' = Some bob
            \<and> password bob = Some ''zq1terces''
            \<and> bcrypt_compare toy_libs ''secret1'' ''zq1terces'' \<and> \<not> isActive bob"
    by code_simp
  show ?thesis
    using h1 h2 h3 h4
      login_failures [of "[alice, bob]" "''nobody@x.com''" toy_libs toy_config "at_time 1000"]
      login_failures [of "[alice, bob]" "''Alice@X.com''" toy_libs toy_config "at_time 1000"
                         "''secret2''" alice "''zq1terces''"]
      login_failures [of "[alice, bob]" "''bob@x.com''" toy_libs toy_config "at_time 1000"
                         "''secret2''" bob "''zq1terces''"]
      login_failures [of "[alice, bob]" "''bob@x.com''" toy_libs toy_config "at_time 1000"
                         "''secret1''" bob "''zq1terces''"]
    by blast
qed

section \<open>Refresh without a usable token\<close>

text \<open>
  C3. A refresh request without a token (no field, or the empty string) is answered with
  status 401, \<open>MissingToken\<close>, by the route itself. When \<open>jwt.verify\<close> rejects the token
  supplied, the route sends nothing and hands the exception to \<open>next\<close>, leaving the
  store as it was; the error-handling middleware, as the specification describes it,
  answers with status 403, \<open>InvalidToken\<close>.
\<close>

theorem refresh_missing_or_unverifiable:
  "(\<not> truthy rt \<longrightarrow>
      refresh_token L C rq rt db = (db, Sent 401 (message ''Refresh token required''))
      \<and> answer (snd (refresh_token L C rq rt db)) = MissingToken)
   \<and> (truthy rt \<and> jwt_verify L (str_of rt) (JWT_REFRESH_SECRET C) (clock rq div 1000) = Inl err \<longrightarrow>
      refresh_token L C rq rt db = (db, Forwarded (JwtError err))
      \<and> answer (snd (refresh_token L C rq rt db)) = Sent 403 (message ''Invalid refresh token''))"
  by (simp add: refresh_token_def answer_def errorHandler_def MissingToken_def InvalidToken_def)

theorem refresh_missing_or_unverifiable_witness:
  "answer (snd (refresh_token toy_libs toy_config (at_time 1400) None [bob])) = MissingToken
   \<and> answer (snd (refresh_token toy_libs toy_config (at_time 1400) (Some []) [bob])) = MissingToken
   \<and> answer (snd (refresh_token toy_libs toy_config (at_time 1400) (Some ''garbage'') [bob]))
       = Sent 403 (message ''Invalid refresh token'')
   \<and> answer (snd (refresh_token toy_libs toy_config (at_time 1400) (Some ''A.uuu.s.ee'') [bob]))
       = Sent 403 (message ''Invalid refresh token'')
   \<and> answer (snd (refresh_token toy_libs toy_config (at_time 3000) (Some ''R.uuu.s.ee'') [bob]))
       = Sent 403 (message ''Invalid refresh token'')"
proof -
  have h1: "\<not> truthy None" and h2: "\<not> truthy (Some [])" by simp_all
  have h3: "truthy (Some ''garbage'')
            \<and> jwt_verify toy_libs (str_of (Some ''garbage'')) (JWT_REFRESH_SECRET toy_config)
                 (clock (at_time 1400) div 1000) = Inl JsonWebTokenError"
    by code_simp
  have h4: "truthy (Some ''A.uuu.s.ee'')
            \<and> jwt_verify toy_libs (str_of (Some ''A.uuu.s.ee'')) (JWT_REFRESH_SECRET toy_config)
                 (clock (at_time 1400) div 1000) = Inl JsonWebTokenError"
    by code_simp
  have h5: "truthy (Some ''R.uuu.s.ee'')
            \<and> jwt_verify toy_libs (str_of (Some ''R.uuu.s.ee'')) (JWT_REFRESH_SECRET toy_config)
                 (clock (at_time 3000) div 1000) = Inl TokenExpiredError"
    by code_simp
  show ?thesis
    using h1 h2 h3 h4 h5
      refresh_missing_or_unverifiable [where rt = None and L = toy_libs and C = toy_config
                                         and rq = "at_time 1400" and db = "[bob]"]
      refresh_missing_or_unverifiable [where rt = "Some []" and L = toy_libs and C = toy_config
                                         and rq = "at_time 1400" and db = "[bob]"]
      refresh_missing_or_unverifiable [where rt = "Some ''garbage''" and L = toy_libs
                                         and C = toy_config and rq = "at_time 1400"
                                         and db = "[bob]" and err = JsonWebTokenError]
      refresh_missing_or_unverifiable [where rt = "Some ''A.uuu.s.ee''" and L = toy_libs
                                         and C = toy_config and rq = "at_time 1400"
                                         and db = "[bob]" and err = JsonWebTokenError]
      refresh_missing_or_unverifiable [where rt = "Some ''R.uuu.s.ee''" and L = toy_libs
                                         and C = toy_config and rq = "at_time 3000"
                                         and db = "[bob]" and err = TokenExpiredError]
    by blast
qed

section \<open>Refresh on a deactivated account\<close>




section \<open>Logout\<close>

lemma filter_token_id:
  "(filter (\<lambda>tk. token tk \<noteq> B) xs = xs) = (\<not> list_ex (\<lambda>tk. token tk = B) xs)"
  by (auto simp: filter_id_conv list_ex_iff)

text \<open>
  C6 as stated fails in three ways. First, a logout that removes a token changes two
  more fields of the account: \<open>dana\<close>'s \<open>updatedAt\<close> goes from 1000 to 2100 and her version
  key from 4 to 5. Second, the empty string is a token value absent from her
  collection, and a logout with it removes both her tokens. Third, on a stored account
  that does not pass the schema (a two-letter username) the logout removes nothing and
  its exception goes to \<open>next\<close>.
\<close>

theorem logout_counterexample:
  "logout toy_libs toy_config (at_time 2100) 4 (Some ''R.uuuu..ee'') [alice, dana, bob]
     = ([alice,
         dana\<lparr>refreshTokens := [\<lparr>token = ''R.uuuu.s.ee'', createdAt = 1000\<rparr>],
               u_updatedAt := 2100, u_v := 5\<rparr>,
         bob],
        Sent 200 (message ''Logged out successfully''))
   \<and> u_updatedAt dana = 1000 \<and> u_v dana = 4
   \<and> logout toy_libs toy_config (at_time 2100) 4 (Some []) [alice, dana, bob]
     = ([alice, dana\<lparr>refreshTokens := [], u_updatedAt := 2100, u_v := 5\<rparr>, bob],
        Sent 200 (message ''Logged out successfully''))
   \<and> logout toy_libs toy_config (at_time 2100) 4 (Some ''R.uuuu..ee'')
        [dana\<lparr>username := ''ab''\<rparr>]
     = ([dana\<lparr>username := ''ab''\<rparr>], Forwarded (ValidationError ''User validation failed''))"
  by code_simp

text \<open>
  C6, as the code has it. On an account that passes the schema, as every account the
  routes store does, logout with a non-empty token \<open>B\<close> answers 200. If \<open>B\<close> is in the
  collection, the stored account is the old one with the entries holding \<open>B\<close> removed
  from \<open>refreshTokens\<close>, all other entries kept in order, \<open>updatedAt\<close> set to the present
  time and the version key incremented; no other field and no other account changes. Any
  other token \<open>A\<close> of the account that still verifies is refreshed successfully
  afterwards, and the collection then holds the remaining tokens without \<open>A\<close>, followed
  by the new one. If \<open>B\<close> is not in the collection the store is unchanged.
\<close>

theorem logout_removes_one_token:
  assumes "findById db authId = Some a" and "account_valid L a" and "B \<noteq> []"
  shows "snd (logout L C rq authId (Some B) db) = Sent 200 (message ''Logged out successfully'')
       \<and> findById (fst (logout L C rq authId (Some B) db)) authId
           = Some (if list_ex (\<lambda>tk. token tk = B) (refreshTokens a)
                   then a\<lparr>refreshTokens := filter (\<lambda>tk. token tk \<noteq> B) (refreshTokens a),
                          u_updatedAt := clock rq, u_v := u_v a + 1\<rparr>
                   else a)
       \<and> (\<forall>j. j \<noteq> authId \<longrightarrow>
             findById (fst (logout L C rq authId (Some B) db)) j = findById db j)
       \<and> (\<not> list_ex (\<lambda>tk. token tk = B) (refreshTokens a) \<longrightarrow>
             fst (logout L C rq authId (Some B) db) = db)
       \<and> (\<forall>A. A \<noteq> B \<and> A \<noteq> [] \<and> list_ex (\<lambda>tk. token tk = A) (refreshTokens a)
                \<and> jwt_verify L A (JWT_REFRESH_SECRET C) (clock rq2 div 1000) = Inr authId \<longrightarrow>
             snd (refresh_token L C rq2 (Some A) (fst (logout L C rq authId (Some B) db)))
               = Sent 200 (tokenPair (generateTokens L C rq2 authId))
             \<and> (\<exists>a2. findById (fst (refresh_token L C rq2 (Some A)
                                       (fst (logout L C rq authId (Some B) db)))) authId = Some a2
                     \<and> map token (refreshTokens a2)
                         = filter (\<lambda>x. x \<noteq> A) (filter (\<lambda>x. x \<noteq> B) (map token (refreshTokens a)))
                             @ [snd (generateTokens L C rq2 authId)]))"
proof -
  from findById_split [OF assms(1)] obtain pre post where
    db: "db = pre @ a # post" and pre: "\<forall>x \<in> set pre. u_id x \<noteq> authId" and ida: "u_id a = authId"
    by blast
  let ?a' = "if list_ex (\<lambda>tk. token tk = B) (refreshTokens a)
                   then a\<lparr>refreshTokens := filter (\<lambda>tk. token tk \<noteq> B) (refreshTokens a),
                          u_updatedAt := clock rq, u_v := u_v a + 1\<rparr>
                   else a"
  have lo: "logout L C rq authId (Some B) db =
              (pre @ ?a' # post, Sent 200 (message ''Logged out successfully''))"
    using logout_found [OF pre ida assms(2), of C rq "Some B" post] assms(3)
    by (simp add: db filter_token_id)
  have ida': "u_id ?a' = authId" using ida by simp
  have va': "account_valid L ?a'" using assms(2) by (simp add: account_valid_frame)
  have tk': "map token (refreshTokens ?a') = filter (\<lambda>x. x \<noteq> B) (map token (refreshTokens a))"
    by (auto simp: filter_map comp_def filter_token_id [symmetric])
  have f: "findById (pre @ ?a' # post) authId = Some ?a'"
    using pre ida' by (rule findById_at)
  have o: "findById (pre @ ?a' # post) j = findById db j" if "j \<noteq> authId" for j
    unfolding db using ida ida' that by (intro findById_elsewhere) simp_all
  have same: "\<not> list_ex (\<lambda>tk. token tk = B) (refreshTokens a) \<longrightarrow> pre @ ?a' # post = db"
    by (simp add: db)
  have rf: "snd (refresh_token L C rq2 (Some A) (pre @ ?a' # post))
               = Sent 200 (tokenPair (generateTokens L C rq2 authId))
             \<and> (\<exists>a2. findById (fst (refresh_token L C rq2 (Some A) (pre @ ?a' # post))) authId
                         = Some a2
                     \<and> map token (refreshTokens a2)
                         = filter (\<lambda>x. x \<noteq> A) (filter (\<lambda>x. x \<noteq> B) (map token (refreshTokens a)))
                             @ [snd (generateTokens L C rq2 authId)])"
    if h: "A \<noteq> B \<and> A \<noteq> [] \<and> list_ex (\<lambda>tk. token tk = A) (refreshTokens a)
                \<and> jwt_verify L A (JWT_REFRESH_SECRET C) (clock rq2 div 1000) = Inr authId" for A
  proof -
    have l: "list_ex (\<lambda>tk. token tk = A) (refreshTokens ?a')"
      using h by (auto simp: list_ex_iff)
    let ?a2 = "?a'\<lparr>refreshTokens :=
                      filter (\<lambda>tk. token tk \<noteq> A) (refreshTokens ?a')
                        @ [\<lparr>token = snd (generateTokens L C rq2 authId), createdAt = clock rq2\<rparr>],
                    u_updatedAt := clock rq2, u_v := u_v ?a' + 1\<rparr>"
    have r: "refresh_token L C rq2 (Some A) (pre @ ?a' # post)
               = (pre @ ?a2 # post, Sent 200 (tokenPair (generateTokens L C rq2 authId)))"
      using pre ida' h l va' by (intro refresh_token_found) simp_all
    have f2: "findById (pre @ ?a2 # post) authId = Some ?a2"
      using pre ida' by (intro findById_at) simp_all
    have "map token (refreshTokens ?a2)
            = filter (\<lambda>x. x \<noteq> A) (map token (refreshTokens ?a'))
                @ [snd (generateTokens L C rq2 authId)]"
      by (simp add: filter_map comp_def)
    then have t2: "map token (refreshTokens ?a2)
            = filter (\<lambda>x. x \<noteq> A) (filter (\<lambda>x. x \<noteq> B) (map token (refreshTokens a)))
                @ [snd (generateTokens L C rq2 authId)]"
      by (simp only: tk')
    show ?thesis unfolding r using f2 t2 by (simp del: split_paired_Ex)
  qed
  show ?thesis unfolding lo using f o same rf by simp
qed


theorem logout_removes_one_token_witness:
  "snd (logout toy_libs toy_config (at_time 2100) 4 (Some ''R.uuuu..ee'') [alice, dana, bob])
     = Sent 200 (message ''Logged out successfully'')
   \<and> findById (fst (logout toy_libs toy_config (at_time 2100) 4 (Some ''R.uuuu..ee'')
                       [alice, dana, bob])) 4
       = Some (dana\<lparr>refreshTokens := [\<lparr>token = ''R.uuuu.s.ee'', createdAt = 1000\<rparr>],
                    u_updatedAt := 2100, u_v := 5\<rparr>)
   \<and> findById (fst (logout toy_libs toy_config (at_time 2100) 4 (Some ''R.uuuu..ee'')
                       [alice, dana, bob])) 1
       = Some alice
   \<and> findById (fst (logout toy_libs toy_config (at_time 2100) 4 (Some ''R.uuuu..ee'')
                       [alice, dana, bob])) 3
       = Some bob
   \<and> snd (refresh_token toy_libs toy_config (at_time 2400) (Some ''R.uuuu.s.ee'')
             (fst (logout toy_libs toy_config (at_time 2100) 4 (Some ''R.uuuu..ee'')
                    [alice, dana, bob])))
       = Sent 200 (tokenPair (''A.uuuu.ss.ee'', ''R.uuuu.ss.ee''))
   \<and> (\<exists>a2. findById (fst (refresh_token toy_libs toy_config (at_time 2400) (Some ''R.uuuu.s.ee'')
                              (fst (logout toy_libs toy_config (at_time 2100) 4
                                     (Some ''R.uuuu..ee'') [alice, dana, bob])))) 4 = Some a2
           \<and> map token (refreshTokens a2) = [''R.uuuu.ss.ee''])
   \<and> fst (logout toy_libs toy_config (at_time 2100) 4 (Some ''R.uuuu.sss.ee'') [alice, dana, bob])
       = [alice, dana, bob]"
proof -
  have h1: "findById [alice, dana, bob] 4 = Some dana" by code_simp
  have h2: "account_valid toy_libs dana" by code_simp
  have h3: "''R.uuuu..ee'' \<noteq> []" and h3': "''R.uuuu.sss.ee'' \<noteq> []" by simp_all
  have e1: "(if list_ex (\<lambda>tk. token tk = ''R.uuuu..ee'') (refreshTokens dana)
             then dana\<lparr>refreshTokens := filter (\<lambda>tk. token tk \<noteq> ''R.uuuu..ee'') (refreshTokens dana),
                       u_updatedAt := clock (at_time 2100), u_v := u_v dana + 1\<rparr>
             else dana)
            = dana\<lparr>refreshTokens := [\<lparr>token = ''R.uuuu.s.ee'', createdAt = 1000\<rparr>],
                    u_updatedAt := 2100, u_v := 5\<rparr>"
    by code_simp
  have o: "findById [alice, dana, bob] 1 = Some alice" "findById [alice, dana, bob] 3 = Some bob"
    "(1::nat) \<noteq> 4" "(3::nat) \<noteq> 4"
    by code_simp+
  have a: "''R.uuuu.s.ee'' \<noteq> ''R.uuuu..ee'' \<and> ''R.uuuu.s.ee'' \<noteq> []
           \<and> list_ex (\<lambda>tk. token tk = ''R.uuuu.s.ee'') (refreshTokens dana)
           \<and> jwt_verify toy_libs ''R.uuuu.s.ee'' (JWT_REFRESH_SECRET toy_config)
                (clock (at_time 2400) div 1000) = Inr 4"
    by code_simp
  have g: "generateTokens toy_libs toy_config (at_time 2400) 4 = (''A.uuuu.ss.ee'', ''R.uuuu.ss.ee'')"
    by code_simp
  have e5: "filter (\<lambda>x. x \<noteq> ''R.uuuu.s.ee'')
              (filter (\<lambda>x. x \<noteq> ''R.uuuu..ee'') (map token (refreshTokens dana)))
              @ [snd (generateTokens toy_libs toy_config (at_time 2400) 4)]
            = [''R.uuuu.ss.ee'']"
    by code_simp
  have n: "\<not> list_ex (\<lambda>tk. token tk = ''R.uuuu.sss.ee'') (refreshTokens dana)" by code_simp
  note t = logout_removes_one_token [OF h1 h2 h3, of toy_config "at_time 2100" "at_time 2400",
                                      unfolded e1]
  note c1 = t [THEN conjunct1]
  note c2 = t [THEN conjunct2, THEN conjunct1]
  from t [THEN conjunct2, THEN conjunct2, THEN conjunct1] o
  have c3: "findById (fst (logout toy_libs toy_config (at_time 2100) 4 (Some ''R.uuuu..ee'')
                       [alice, dana, bob])) 1 = Some alice"
    and c4: "findById (fst (logout toy_libs toy_config (at_time 2100) 4 (Some ''R.uuuu..ee'')
                       [alice, dana, bob])) 3 = Some bob"
    by simp_all
  from t [THEN conjunct2, THEN conjunct2, THEN conjunct2, THEN conjunct2,
          THEN spec, of "''R.uuuu.s.ee''", THEN mp, OF a, unfolded e5, unfolded g]
  have c5: "snd (refresh_token toy_libs toy_config (at_time 2400) (Some ''R.uuuu.s.ee'')
             (fst (logout toy_libs toy_config (at_time 2100) 4 (Some ''R.uuuu..ee'')
                    [alice, dana, bob])))
       = Sent 200 (tokenPair (''A.uuuu.ss.ee'', ''R.uuuu.ss.ee''))"
    and c6: "\<exists>a2. findById (fst (refresh_token toy_libs toy_config (at_time 2400) (Some ''R.uuuu.s.ee'')
                              (fst (logout toy_libs toy_config (at_time 2100) 4
                                     (Some ''R.uuuu..ee'') [alice, dana, bob])))) 4 = Some a2
           \<and> map token (refreshTokens a2) = [''R.uuuu.ss.ee'']"
    by blast+
  from logout_removes_one_token [OF h1 h2 h3', of toy_config "at_time 2100" "at_time 2400",
         THEN conjunct2, THEN conjunct2, THEN conjunct2, THEN conjunct1] n
  have c7: "fst (logout toy_libs toy_config (at_time 2100) 4 (Some ''R.uuuu.sss.ee'')
                  [alice, dana, bob]) = [alice, dana, bob]"
    by (rule mp)
  show ?thesis by (intro conjI) (rule c1 c2 c3 c4 c5 c6 c7)+
qed

text \<open>
  The empty string counts as no token: a logout with it clears the collection, as a
  logout without a token does. On an account that does not pass the schema every logout
  ends in the validation error (\<open>logout_invalid\<close>).
\<close>

lemma logout_empty_string:
  "logout L C rq authId (Some []) db = logout L C rq authId None db"
  by (cases "findById db authId") (simp_all add: logout_def)


section \<open>Rotation of refresh tokens\<close>

text \<open>
  C1 fails on the code when a token is presented in the second in which it was signed.
  \<open>alice\<close> logs in at 1000 ms and is given the refresh token \<open>R.u.s.ee\<close>. She presents it
  at 1400 ms. The route signs a token for the same account with the same key in the same
  second, which is the token presented; it filters that token out of the collection and
  pushes it back. The refresh succeeds, the token is in the collection afterwards, and
  presented again at 1800 ms it is accepted again instead of failing with
  \<open>InvalidToken\<close>.
\<close>

theorem refresh_reissues_presented_token:
  "db_after_login
     = [alice\<lparr>refreshTokens := [\<lparr>token = ''R.u.s.ee'', createdAt = 1000\<rparr>],
              u_updatedAt := 1000, u_v := 3\<rparr>]
   \<and> refresh_token toy_libs toy_config (at_time 1400) (Some ''R.u.s.ee'') db_after_login
       = (db_after_refresh, Sent 200 (tokenPair (''A.u.s.ee'', ''R.u.s.ee'')))
   \<and> db_after_refresh
       = [alice\<lparr>refreshTokens := [\<lparr>token = ''R.u.s.ee'', createdAt = 1400\<rparr>],
                u_updatedAt := 1400, u_v := 4\<rparr>]
   \<and> refresh_token toy_libs toy_config (at_time 1800) (Some ''R.u.s.ee'') db_after_refresh
       = ([alice\<lparr>refreshTokens := [\<lparr>token = ''R.u.s.ee'', createdAt = 1800\<rparr>],
                 u_updatedAt := 1800, u_v := 5\<rparr>],
          Sent 200 (tokenPair (''A.u.s.ee'', ''R.u.s.ee'')))
   \<and> snd (refresh_token toy_libs toy_config (at_time 1800) (Some ''R.u.s.ee'') db_after_refresh)
       \<noteq> InvalidToken"
  by code_simp

text \<open>
  The same holds whatever the signing library is: a token presented in the second in
  which it was signed is issued again and stays in the collection.
\<close>

lemma refresh_same_second_reissues:
  assumes "findById db userId = Some a" and "account_valid L a" and "t \<noteq> []"
    and "jwt_verify L t (JWT_REFRESH_SECRET C) (clock rq div 1000) = Inr userId"
    and "list_ex (\<lambda>tk. token tk = t) (refreshTokens a)"
    and "t = jwt_sign L userId (JWT_REFRESH_SECRET C) (JWT_REFRESH_EXPIRES_IN C) (clock rq div 1000)"
  shows "\<exists>db1 a1. refresh_token L C rq (Some t) db
                     = (db1, Sent 200 (tokenPair (generateTokens L C rq userId)))
                 \<and> snd (generateTokens L C rq userId) = t
                 \<and> findById db1 userId = Some a1
                 \<and> list_ex (\<lambda>tk. token tk = t) (refreshTokens a1)"
proof -
  from findById_split [OF assms(1)] obtain pre post where
    db: "db = pre @ a # post" and pre: "\<forall>x \<in> set pre. u_id x \<noteq> userId" and ida: "u_id a = userId"
    by blast
  let ?a' = "a\<lparr>refreshTokens := filter (\<lambda>tk. token tk \<noteq> t) (refreshTokens a)
                    @ [\<lparr>token = snd (generateTokens L C rq userId), createdAt = clock rq\<rparr>],
                u_updatedAt := clock rq, u_v := u_v a + 1\<rparr>"
  have r: "refresh_token L C rq (Some t) db
          = (pre @ ?a' # post, Sent 200 (tokenPair (generateTokens L C rq userId)))"
    unfolding db using pre ida assms(3,4,5,2) by (rule refresh_token_found)
  have s: "snd (generateTokens L C rq userId) = t"
    using assms(6) by (simp add: generateTokens_def)
  have f: "findById (pre @ ?a' # post) userId = Some ?a'"
    using pre ida by (intro findById_at) simp_all
  have l: "list_ex (\<lambda>tk. token tk = t) (refreshTokens ?a')"
    using s by (simp add: list_ex_iff)
  show ?thesis using r s f l by blast
qed

text \<open>
  A token revoked by logout comes back the same way. An account holds \<open>A\<close>, signed in
  second 1, and \<open>B\<close>, signed in second 2. Logout removes \<open>B\<close> at 2100 ms; a refresh with
  \<open>A\<close> at 2400 ms, in second 2, signs \<open>B\<close> again and stores it, and \<open>B\<close> is accepted at
  2600 ms.
\<close>

lemma logged_out_token_reissued:
  "fst (logout toy_libs toy_config (at_time 2100) 4 (Some ''R.uuuu.ss.ee'')
         [dana\<lparr>refreshTokens := [\<lparr>token = ''R.uuuu.s.ee'', createdAt = 1000\<rparr>,
                                   \<lparr>token = ''R.uuuu.ss.ee'', createdAt = 2000\<rparr>]\<rparr>])
     = [dana\<lparr>refreshTokens := [\<lparr>token = ''R.uuuu.s.ee'', createdAt = 1000\<rparr>],
             u_updatedAt := 2100, u_v := 5\<rparr>]
   \<and> refresh_token toy_libs toy_config (at_time 2400) (Some ''R.uuuu.s.ee'')
        [dana\<lparr>refreshTokens := [\<lparr>token = ''R.uuuu.s.ee'', createdAt = 1000\<rparr>],
              u_updatedAt := 2100, u_v := 5\<rparr>]
     = ([dana\<lparr>refreshTokens := [\<lparr>token = ''R.uuuu.ss.ee'', createdAt = 2400\<rparr>],
               u_updatedAt := 2400, u_v := 6\<rparr>],
        Sent 200 (tokenPair (''A.uuuu.ss.ee'', ''R.uuuu.ss.ee'')))
   \<and> snd (refresh_token toy_libs toy_config (at_time 2600) (Some ''R.uuuu.ss.ee'')
             [dana\<lparr>refreshTokens := [\<lparr>token = ''R.uuuu.ss.ee'', createdAt = 2400\<rparr>],
                   u_updatedAt := 2400, u_v := 6\<rparr>])
     = Sent 200 (tokenPair (''A.uuuu.ss.ee'', ''R.uuuu.ss.ee''))"
  by code_simp

text \<open>
  When the token issued differs from the one presented, the rotation is single-use. A
  successful refresh with \<open>t\<close> changes the store at the token's account only: the entries
  holding \<open>t\<close> are removed and one entry with the new refresh token is appended. A later
  refresh with \<open>t\<close> then leaves the store as it is and does not succeed: while \<open>t\<close>
  verifies for the account the route answers \<open>InvalidToken\<close>, and when verification
  fails the exception goes to \<open>next\<close>, which the error-handling middleware answers with
  \<open>InvalidToken\<close> as well.
\<close>

lemma refresh_rotates:
  assumes "refresh_token L C rq (Some t) db = (db1, Sent 200 body)"
  shows "\<exists>userId a pre post.
           jwt_verify L t (JWT_REFRESH_SECRET C) (clock rq div 1000) = Inr userId
         \<and> db = pre @ a # post \<and> (\<forall>x \<in> set pre. u_id x \<noteq> userId) \<and> u_id a = userId
         \<and> list_ex (\<lambda>tk. token tk = t) (refreshTokens a)
         \<and> body = tokenPair (generateTokens L C rq userId)
         \<and> db1 = pre @ a\<lparr>refreshTokens :=
                           filter (\<lambda>tk. token tk \<noteq> t) (refreshTokens a)
                             @ [\<lparr>token = snd (generateTokens L C rq userId),
                                 createdAt = clock rq\<rparr>],
                         u_updatedAt := clock rq, u_v := u_v a + 1\<rparr> # post
         \<and> (snd (generateTokens L C rq userId) \<noteq> t \<longrightarrow>
              (\<forall>rq2.
                 (\<forall>err. jwt_verify L t (JWT_REFRESH_SECRET C) (clock rq2 div 1000) = Inl err \<longrightarrow>
                    refresh_token L C rq2 (Some t) db1 = (db1, Forwarded (JwtError err))
                    \<and> answer (Forwarded (JwtError err)) = InvalidToken)
               \<and> (jwt_verify L t (JWT_REFRESH_SECRET C) (clock rq2 div 1000) = Inr userId \<longrightarrow>
                    refresh_token L C rq2 (Some t) db1 = (db1, InvalidToken))))"
proof -
  have t: "t \<noteq> []"
    using assms by (auto simp: refresh_token_def message_def split: if_splits)
  obtain userId where v: "jwt_verify L t (JWT_REFRESH_SECRET C) (clock rq div 1000) = Inr userId"
    using assms t by (cases "jwt_verify L t (JWT_REFRESH_SECRET C) (clock rq div 1000)")
      (auto simp: refresh_token_def)
  obtain a where f: "findById db userId = Some a"
    using assms t v by (cases "findById db userId") (auto simp: refresh_token_def)
  have ex: "list_ex (\<lambda>tk. token tk = t) (refreshTokens a)"
    using assms t v f by (auto simp: refresh_token_def split: if_splits)
  have va: "account_valid L a"
    using refresh_token_invalid [OF f t v ex, of] assms by (cases "account_valid L a") auto
  from findById_split [OF f] obtain pre post where
    db: "db = pre @ a # post" and pre: "\<forall>x \<in> set pre. u_id x \<noteq> userId" and ida: "u_id a = userId"
    by blast
  let ?new = "snd (generateTokens L C rq userId)"
  let ?a' = "a\<lparr>refreshTokens := filter (\<lambda>tk. token tk \<noteq> t) (refreshTokens a)
                                   @ [\<lparr>token = ?new, createdAt = clock rq\<rparr>],
                u_updatedAt := clock rq, u_v := u_v a + 1\<rparr>"
  have "refresh_token L C rq (Some t) db
          = (pre @ ?a' # post, Sent 200 (tokenPair (generateTokens L C rq userId)))"
    unfolding db using pre ida t v ex va by (rule refresh_token_found)
  with assms have db1: "db1 = pre @ ?a' # post"
    and body: "body = tokenPair (generateTokens L C rq userId)"
    by simp_all
  have again: "(\<forall>err. jwt_verify L t (JWT_REFRESH_SECRET C) (clock rq2 div 1000) = Inl err \<longrightarrow>
                    refresh_token L C rq2 (Some t) db1 = (db1, Forwarded (JwtError err))
                    \<and> answer (Forwarded (JwtError err)) = InvalidToken)
               \<and> (jwt_verify L t (JWT_REFRESH_SECRET C) (clock rq2 div 1000) = Inr userId \<longrightarrow>
                    refresh_token L C rq2 (Some t) db1 = (db1, InvalidToken))"
    if fresh: "?new \<noteq> t" for rq2
  proof -
    have f1: "findById db1 userId = Some ?a'"
      unfolding db1 using pre ida by (intro findById_at) simp_all
    have gone: "\<not> list_ex (\<lambda>tk. token tk = t) (refreshTokens ?a')"
      using fresh by (auto simp: list_ex_iff)
    show ?thesis
      using t f1 gone
      by (simp add: refresh_token_def InvalidToken_def answer_def errorHandler_def)
  qed
  show ?thesis
    using v db pre ida ex body db1 again by blast
qed

section \<open>Signup against an identity already taken\<close>

text \<open>
  A signup whose email, lower-cased, or whose username, trimmed, is held by a stored
  account answers 400 with one of the two messages and stores nothing.
\<close>

lemma signup_taken:
  assumes "\<exists>x \<in> set db. email x = toLowerCase (b_email b) \<or> username x = trim (b_username b)"
  shows "\<exists>m. signup L C rq b db = (db, DuplicateIdentity m)
             \<and> m \<in> {''Email already registered'', ''Username already taken''}"
proof -
  from assms obtain x where "findOne_email_or_username db (b_email b) (b_username b) = Some x"
    unfolding findOne_email_or_username_def
    by (cases "find (\<lambda>a. email a = toLowerCase (b_email b) \<or> username a = trim (b_username b)) db")
       (auto simp: find_None_iff)
  from signup_existing [OF this, of L C rq] show ?thesis by auto
qed

text \<open>
  The message names a field that collided when the email of the request is already in
  lower case: the email message only if an account has exactly that email, the username
  message only if an account has that username.
\<close>

lemma signup_message_lowercase_email:
  assumes "signup L C rq b db = (db1, DuplicateIdentity m)"
    and "toLowerCase (b_email b) = b_email b"
  shows "(m = ''Email already registered'' \<longrightarrow> (\<exists>x \<in> set db. email x = b_email b))
       \<and> (m = ''Username already taken'' \<longrightarrow> (\<exists>x \<in> set db. username x = trim (b_username b)))"
proof (cases "findOne_email_or_username db (b_email b) (b_username b)")
  case None
  then show ?thesis
    using assms(1)
    by (auto simp: signup_def DuplicateIdentity_def split: sum.splits prod.splits)
next
  case (Some x)
  then have x: "x \<in> set db"
    and c: "email x = toLowerCase (b_email b) \<or> username x = trim (b_username b)"
    unfolding findOne_email_or_username_def by (auto simp: find_Some_iff)
  from signup_existing [OF Some, of L C rq] assms(1)
  have "m = (if email x = b_email b then ''Email already registered''
             else ''Username already taken'')"
    by (simp add: DuplicateIdentity_def message_def)
  then show ?thesis using x c assms(2) by (auto split: if_splits)
qed

text \<open>
  C4 fails on the code at a request whose email differs in case from a stored one. The
  store holds \<open>alice\<close> with email \<open>alice@x.com\<close>; the request asks for the username
  \<open>carol\<close>, which no account has, and the email \<open>Alice@X.com\<close>. The lookup finds \<open>alice\<close>
  through the lower-cased email, the route compares her stored email with the email as
  typed, finds them different, and answers that the username is taken.
\<close>

theorem signup_reports_wrong_field:
  "signup L C rq carol_request [alice] = ([alice], DuplicateIdentity ''Username already taken'')
   \<and> trim (b_username carol_request) = ''carol'' \<and> username alice = ''alice''
   \<and> toLowerCase (b_email carol_request) = email alice"
proof -
  have f: "findOne_email_or_username [alice] (b_email carol_request) (b_username carol_request)
             = Some alice"
    by code_simp
  have n: "email alice \<noteq> b_email carol_request" by code_simp
  have r: "trim (b_username carol_request) = ''carol'' \<and> username alice = ''alice''
   \<and> toLowerCase (b_email carol_request) = email alice"
    by code_simp
  from signup_existing [OF f, of L C rq] n r show ?thesis by simp
qed

text \<open>
  C5. After a successful signup, a second signup whose email differs from the first at
  most in letter case, or whose username is the same (up to the surrounding white space
  the schema trims), fails with status 400 and one of the two duplicate-identity
  messages, and stores nothing.
\<close>

theorem signup_twice_fails:
  assumes "signup L C rq b db = (db1, Sent 201 body)"
    and "toLowerCase (b_email b') = toLowerCase (b_email b)
         \<or> trim (b_username b') = trim (b_username b)"
  shows "\<exists>m. signup L C rq' b' db1 = (db1, DuplicateIdentity m)
             \<and> m \<in> {''Email already registered'', ''Username already taken''}"
proof -
  let ?stored = "(obj (new_User (newId rq) b))
                       \<lparr>password := Some (bcrypt_hash L (b_password b)
                                           (bcrypt_genSalt L (BCRYPT_ROUNDS C) (entropy rq))),
                        refreshTokens := [\<lparr>token = snd (generateTokens L C rq (newId rq)),
                                           createdAt = clock rq\<rparr>],
                        u_createdAt := clock rq, u_updatedAt := clock rq, u_v := 1\<rparr>"
  from signup_created [OF assms(1)] have db1: "db1 = db @ [?stored]" by blast
  have e: "email ?stored = toLowerCase (b_email b)" and u: "username ?stored = trim (b_username b)"
    by (simp_all add: new_User_def)
  have "?stored \<in> set db1" by (simp add: db1)
  moreover have "email ?stored = toLowerCase (b_email b') \<or> username ?stored = trim (b_username b')"
    using assms(2) e u by auto
  ultimately have "\<exists>x \<in> set db1. email x = toLowerCase (b_email b') \<or> username x = trim (b_username b')"
    by blast
  then show ?thesis by (rule signup_taken)
qed

theorem signup_twice_fails_witness:
  "signup toy_libs toy_config (at_time 1000) alice_request []
     = ([alice\<lparr>u_id := 2, refreshTokens := [\<lparr>token = ''R.uu.s.ee'', createdAt = 1000\<rparr>],
               u_createdAt := 1000, u_updatedAt := 1000, u_v := 1\<rparr>],
        Sent 201 [(''message'', RStr ''User registered successfully''),
                  (''user'', RUser (toJSON (alice\<lparr>u_id := 2, u_createdAt := 1000,
                                                  u_updatedAt := 1000, u_v := 1\<rparr>))),
                  (''accessToken'', RStr ''A.uu.s.ee''),
                  (''refreshToken'', RStr ''R.uu.s.ee'')])
   \<and> (\<exists>m. signup toy_libs toy_config (at_time 5000) carol_request
             [alice\<lparr>u_id := 2, refreshTokens := [\<lparr>token = ''R.uu.s.ee'', createdAt = 1000\<rparr>],
               u_createdAt := 1000, u_updatedAt := 1000, u_v := 1\<rparr>]
           = ([alice\<lparr>u_id := 2, refreshTokens := [\<lparr>token = ''R.uu.s.ee'', createdAt = 1000\<rparr>],
               u_createdAt := 1000, u_updatedAt := 1000, u_v := 1\<rparr>],
              DuplicateIdentity m)
         \<and> m \<in> {''Email already registered'', ''Username already taken''})"
proof -
  have h: "signup toy_libs toy_config (at_time 1000) alice_request []
     = ([alice\<lparr>u_id := 2, refreshTokens := [\<lparr>token = ''R.uu.s.ee'', createdAt = 1000\<rparr>],
               u_createdAt := 1000, u_updatedAt := 1000, u_v := 1\<rparr>],
        Sent 201 [(''message'', RStr ''User registered successfully''),
                  (''user'', RUser (toJSON (alice\<lparr>u_id := 2, u_createdAt := 1000,
                                                  u_updatedAt := 1000, u_v := 1\<rparr>))),
                  (''accessToken'', RStr ''A.uu.s.ee''),
                  (''refreshToken'', RStr ''R.uu.s.ee'')])"
    by code_simp
  have c: "toLowerCase (b_email carol_request) = toLowerCase (b_email alice_request)
           \<or> trim (b_username carol_request) = trim (b_username alice_request)"
    by code_simp
  from signup_twice_fails [OF h c, of "at_time 5000"] h show ?thesis by blast
qed

section \<open>The account in a response\<close>

text \<open>What a successful login has sent.\<close>

lemma login_success_body:
  assumes "login L C rq e pw db = (db1, Sent 200 body)"
  shows "\<exists>u. body = [(''message'', RStr ''Login successful''),
                       (''user'', RUser (toJSON u)),
                       (''accessToken'', RStr (fst (generateTokens L C rq (u_id u)))),
                       (''refreshToken'', RStr (snd (generateTokens L C rq (u_id u))))]
             \<and> password u = None"
proof -
  obtain a where a: "findOne_email db e = Some a"
    using assms by (cases "findOne_email db e") (auto simp: login_def message_def)
  have c: "comparePassword L a pw = Inr True"
    using assms a by (cases "comparePassword L a pw") (auto simp: login_def message_def split: bool.splits)
  have act: "isActive a"
    using assms a c by (auto simp: login_def message_def split: if_splits)
  let ?d = "push_refreshToken rq (snd (generateTokens L C rq (u_id a))) (hydrate a)"
  obtain user1 dbA where s: "save L C rq ?d db = Inr (user1, dbA)"
    using assms a c act by (cases "save L C rq ?d db") (auto simp: login_def split_beta)
  from save_Inr_id [OF s] have id1: "u_id (obj user1) = u_id a"
    by (simp add: push_refreshToken_def hydrate_def markModified_def)
  have "body = [(''message'', RStr ''Login successful''),
                (''user'', RUser (toJSON ((obj user1)\<lparr>password := None\<rparr>))),
                (''accessToken'', RStr (fst (generateTokens L C rq (u_id a)))),
                (''refreshToken'', RStr (snd (generateTokens L C rq (u_id a))))]"
    using assms a c act s by (simp add: login_def split_beta)
  then show ?thesis using id1 by (intro exI [of _ "(obj user1)\<lparr>password := None\<rparr>"]) simp
qed

text \<open>
  C8. The account in the response of a successful signup and of a successful login is
  the document's \<open>toJSON\<close>, which has no \<open>password\<close> field: no account projection in either
  body has one.
\<close>

theorem responses_omit_password:
  "(signup L C rq b db = (db1, Sent 201 body) \<longrightarrow>
      (\<exists>proj. map_of body ''user'' = Some (RUser proj))
      \<and> (\<forall>k proj. (k, RUser proj) \<in> set body \<longrightarrow> ''password'' \<notin> fst ` set proj))
   \<and> (login L C rq e pw db = (db1, Sent 200 body) \<longrightarrow>
      (\<exists>proj. map_of body ''user'' = Some (RUser proj))
      \<and> (\<forall>k proj. (k, RUser proj) \<in> set body \<longrightarrow> ''password'' \<notin> fst ` set proj))"
proof (intro conjI impI)
  assume s: "signup L C rq b db = (db1, Sent 201 body)"
  from signup_created [OF s] have
    b: "body = [(''message'', RStr ''User registered successfully''),
                 (''user'', RUser (toJSON (last db1))),
                 (''accessToken'', RStr (fst (generateTokens L C rq (newId rq)))),
                 (''refreshToken'', RStr (snd (generateTokens L C rq (newId rq))))]"
    by blast
  show "\<exists>proj. map_of body ''user'' = Some (RUser proj)" by (simp add: b)
  show "\<forall>k proj. (k, RUser proj) \<in> set body \<longrightarrow> ''password'' \<notin> fst ` set proj"
    using toJSON_no_password [of "last db1"] by (auto simp: b)
next
  assume l: "login L C rq e pw db = (db1, Sent 200 body)"
  from login_success_body [OF l] obtain u where
    b: "body = [(''message'', RStr ''Login successful''),
                       (''user'', RUser (toJSON u)),
                       (''accessToken'', RStr (fst (generateTokens L C rq (u_id u)))),
                       (''refreshToken'', RStr (snd (generateTokens L C rq (u_id u))))]"
    by blast
  show "\<exists>proj. map_of body ''user'' = Some (RUser proj)" by (simp add: b)
  show "\<forall>k proj. (k, RUser proj) \<in> set body \<longrightarrow> ''password'' \<notin> fst ` set proj"
    using toJSON_no_password [of u] by (auto simp: b)
qed

theorem responses_omit_password_witness:
  "signup toy_libs toy_config (at_time 1000) alice_request []
     = ([alice\<lparr>u_id := 2, refreshTokens := [\<lparr>token = ''R.uu.s.ee'', createdAt = 1000\<rparr>],
               u_createdAt := 1000, u_updatedAt := 1000, u_v := 1\<rparr>],
        Sent 201 [(''message'', RStr ''User registered successfully''),
                  (''user'', RUser (toJSON (alice\<lparr>u_id := 2, u_createdAt := 1000, u_updatedAt := 1000, u_v := 1\<rparr>))),
                  (''accessToken'', RStr ''A.uu.s.ee''),
                  (''refreshToken'', RStr ''R.uu.s.ee'')])
   \<and> ''password'' \<notin> fst ` set (toJSON (alice\<lparr>u_id := 2, u_createdAt := 1000, u_updatedAt := 1000, u_v := 1\<rparr>))
   \<and> login toy_libs toy_config (at_time 1000) ''alice@x.com'' ''secret1'' [alice]
     = (db_after_login,
        Sent 200 [(''message'', RStr ''Login successful''),
                  (''user'', RUser (toJSON (alice\<lparr>u_updatedAt := 1000, u_v := 3\<rparr>))),
                  (''accessToken'', RStr ''A.u.s.ee''),
                  (''refreshToken'', RStr ''R.u.s.ee'')])
   \<and> ''password'' \<notin> fst ` set (toJSON (alice\<lparr>u_updatedAt := 1000, u_v := 3\<rparr>))"
proof -
  let ?d1 = "[alice\<lparr>u_id := 2, refreshTokens := [\<lparr>token = ''R.uu.s.ee'', createdAt = 1000\<rparr>],
               u_createdAt := 1000, u_updatedAt := 1000, u_v := 1\<rparr>]"
  let ?b1 = "[(''message'', RStr ''User registered successfully''),
                  (''user'', RUser (toJSON (alice\<lparr>u_id := 2, u_createdAt := 1000, u_updatedAt := 1000, u_v := 1\<rparr>))),
                  (''accessToken'', RStr ''A.uu.s.ee''),
                  (''refreshToken'', RStr ''R.uu.s.ee'')]"
  let ?b2 = "[(''message'', RStr ''Login successful''),
                  (''user'', RUser (toJSON (alice\<lparr>u_updatedAt := 1000, u_v := 3\<rparr>))),
                  (''accessToken'', RStr ''A.u.s.ee''),
                  (''refreshToken'', RStr ''R.u.s.ee'')]"
  have h1: "signup toy_libs toy_config (at_time 1000) alice_request [] = (?d1, Sent 201 ?b1)"
    by code_simp
  have h2: "login toy_libs toy_config (at_time 1000) ''alice@x.com'' ''secret1'' [alice]
              = (db_after_login, Sent 200 ?b2)"
    by code_simp
  have "signup toy_libs toy_config (at_time 1000) alice_request [] = (?d1, Sent 201 ?b1) \<longrightarrow>
      (\<exists>proj. map_of ?b1 ''user'' = Some (RUser proj))
      \<and> (\<forall>k proj. (k, RUser proj) \<in> set ?b1 \<longrightarrow> ''password'' \<notin> fst ` set proj)"
    by (rule responses_omit_password [THEN conjunct1])
  from this h1 have "\<forall>k proj. (k, RUser proj) \<in> set ?b1 \<longrightarrow> ''password'' \<notin> fst ` set proj"
    by (rule mp [THEN conjunct2])
  then have c1: "''password'' \<notin> fst ` set (toJSON (alice\<lparr>u_id := 2, u_createdAt := 1000, u_updatedAt := 1000, u_v := 1\<rparr>))"
    by simp
  have "login toy_libs toy_config (at_time 1000) ''alice@x.com'' ''secret1'' [alice]
              = (db_after_login, Sent 200 ?b2) \<longrightarrow>
      (\<exists>proj. map_of ?b2 ''user'' = Some (RUser proj))
      \<and> (\<forall>k proj. (k, RUser proj) \<in> set ?b2 \<longrightarrow> ''password'' \<notin> fst ` set proj)"
    by (rule responses_omit_password [THEN conjunct2])
  from this h2 have "\<forall>k proj. (k, RUser proj) \<in> set ?b2 \<longrightarrow> ''password'' \<notin> fst ` set proj"
    by (rule mp [THEN conjunct2])
  then have c2: "''password'' \<notin> fst ` set (toJSON (alice\<lparr>u_updatedAt := 1000, u_v := 3\<rparr>))"
    by simp
  show ?thesis by (intro conjI) (rule h1 c1 h2 c2)+
qed

section \<open>The stored password across saves\<close>

text \<open>
  Each route that saves a loaded document leaves the store as it was or changes the
  \<open>refreshTokens\<close>, the \<open>updatedAt\<close> stamp and the version key of one account.
\<close>

lemma logout_frame:
  "fst (logout L C rq i rt db) = db
   \<or> (\<exists>pre a post v s n. db = pre @ a # post
          \<and> fst (logout L C rq i rt db)
              = pre @ a\<lparr>refreshTokens := v, u_updatedAt := s, u_v := n\<rparr> # post)"
proof (cases "findById db i")
  case None
  then show ?thesis by (simp add: logout_def)
next
  case (Some a)
  show ?thesis
  proof (cases "account_valid L a")
    case False
    from logout_invalid [OF Some False] show ?thesis by simp
  next
    case True
    from findById_split [OF Some] obtain pre post where
      db: "db = pre @ a # post" and pre: "\<forall>x \<in> set pre. u_id x \<noteq> i" and ida: "u_id a = i"
      by blast
    let ?v = "if truthy rt then filter (\<lambda>tk. token tk \<noteq> str_of rt) (refreshTokens a) else []"
    note lo = logout_found [OF pre ida True, of C rq rt post]
    show ?thesis
    proof (cases "?v = refreshTokens a")
      case same: True
      with lo db have "fst (logout L C rq i rt db) = db" by simp
      then show ?thesis by (rule disjI1)
    next
      case False
      with lo db have "fst (logout L C rq i rt db)
                         = pre @ a\<lparr>refreshTokens := ?v, u_updatedAt := clock rq,
                                    u_v := u_v a + 1\<rparr> # post"
        by simp
      with db have "\<exists>pre a post v s n. db = pre @ a # post
          \<and> fst (logout L C rq i rt db)
              = pre @ a\<lparr>refreshTokens := v, u_updatedAt := s, u_v := n\<rparr> # post"
        by blast
      then show ?thesis by (rule disjI2)
    qed
  qed
qed

lemma refresh_token_frame:
  "fst (refresh_token L C rq rt db) = db
   \<or> (\<exists>pre a post v s n. db = pre @ a # post
          \<and> fst (refresh_token L C rq rt db)
              = pre @ a\<lparr>refreshTokens := v, u_updatedAt := s, u_v := n\<rparr> # post)"
proof (cases "truthy rt")
  case False
  then show ?thesis by (simp add: refresh_token_def)
next
  case True
  then obtain t where rt: "rt = Some t" and t: "t \<noteq> []" by (cases rt) auto
  show ?thesis
  proof (cases "jwt_verify L t (JWT_REFRESH_SECRET C) (clock rq div 1000)")
    case (Inl err)
    then show ?thesis using rt t by (simp add: refresh_token_def)
  next
    case (Inr userId)
    show ?thesis
    proof (cases "findById db userId")
      case None
      then show ?thesis using rt t Inr by (simp add: refresh_token_def)
    next
      case (Some a)
      show ?thesis
      proof (cases "list_ex (\<lambda>tk. token tk = t) (refreshTokens a)")
        case False
        then show ?thesis using rt t Inr Some by (simp add: refresh_token_def)
      next
        case True
        show ?thesis
        proof (cases "account_valid L a")
          case False
          from refresh_token_invalid [OF Some t Inr True False] rt show ?thesis by simp
        next
          case valid: True
          from findById_split [OF Some] obtain pre post where
            db: "db = pre @ a # post" and pre: "\<forall>x \<in> set pre. u_id x \<noteq> userId"
            and ida: "u_id a = userId"
            by blast
          from refresh_token_found [OF pre ida t Inr True valid, of post] db rt
          have "fst (refresh_token L C rq rt db)
                  = pre @ a\<lparr>refreshTokens :=
                              filter (\<lambda>tk. token tk \<noteq> t) (refreshTokens a)
                                @ [\<lparr>token = snd (generateTokens L C rq userId),
                                    createdAt = clock rq\<rparr>],
                            u_updatedAt := clock rq, u_v := u_v a + 1\<rparr> # post"
            by simp
          with db have "\<exists>pre a post v s n. db = pre @ a # post
              \<and> fst (refresh_token L C rq rt db)
                  = pre @ a\<lparr>refreshTokens := v, u_updatedAt := s, u_v := n\<rparr> # post"
            by blast
          then show ?thesis by (rule disjI2)
        qed
      qed
    qed
  qed
qed

lemma findById_distinct:
  "distinct (map u_id db) \<Longrightarrow> a \<in> set db \<Longrightarrow> findById db (u_id a) = Some a"
  by (induction db) (auto simp: findById_def)

lemma login_frame:
  assumes "distinct (map u_id db)"
  shows "fst (login L C rq e pw db) = db
   \<or> (\<exists>pre a post v s n. db = pre @ a # post
          \<and> fst (login L C rq e pw db)
              = pre @ a\<lparr>refreshTokens := v, u_updatedAt := s, u_v := n\<rparr> # post)"
proof (cases "findOne_email db e")
  case None
  then show ?thesis by (simp add: login_def)
next
  case (Some a)
  then have "a \<in> set db" by (auto simp: findOne_email_def find_Some_iff)
  with assms have f: "findById db (u_id a) = Some a" by (rule findById_distinct)
  from findById_split [OF f] obtain pre post where
    db: "db = pre @ a # post" and pre: "\<forall>x \<in> set pre. u_id x \<noteq> u_id a"
    by blast
  let ?d = "push_refreshToken rq (snd (generateTokens L C rq (u_id a))) (hydrate a)"
  have d1: "\<not> isNew ?d" and d2: "modifiedPaths ?d \<noteq> []"
    and d3: "set (modifiedPaths ?d) \<subseteq> {''refreshTokens''}"
    and d6: "u_id (obj ?d) = u_id a"
    and d4: "obj ?d = a\<lparr>refreshTokens := refreshTokens a
               @ [\<lparr>token = snd (generateTokens L C rq (u_id a)), createdAt = clock rq\<rparr>]\<rparr>"
    by (simp_all add: push_refreshToken_def hydrate_def markModified_def)
  show ?thesis
  proof (cases "comparePassword L a pw = Inr True \<and> isActive a \<and> account_valid L a")
    case True
    then have d5: "account_valid L (obj ?d)" by (simp add: d4 account_valid_frame)
    have s: "save L C rq ?d (pre @ a # post) =
           Inr (?d\<lparr>obj := (obj ?d)\<lparr>u_updatedAt := clock rq, u_v := u_v (obj ?d) + 1\<rparr>,
                  modifiedPaths := []\<rparr>,
                pre @ (obj ?d)\<lparr>u_updatedAt := clock rq, u_v := u_v (obj ?d) + 1\<rparr> # post)"
      using d1 d2 d3 d5 pre d6 by (intro save_loaded) simp_all
    have "fst (login L C rq e pw db)
            = pre @ (obj ?d)\<lparr>u_updatedAt := clock rq, u_v := u_v (obj ?d) + 1\<rparr> # post"
      using True Some s unfolding db [symmetric] by (simp add: login_def split_beta)
    then have "fst (login L C rq e pw db)
            = pre @ a\<lparr>refreshTokens := refreshTokens a
               @ [\<lparr>token = snd (generateTokens L C rq (u_id a)), createdAt = clock rq\<rparr>],
                 u_updatedAt := clock rq, u_v := u_v a + 1\<rparr> # post"
      by (simp add: d4)
    with db have "\<exists>pre a post v s n. db = pre @ a # post
          \<and> fst (login L C rq e pw db)
              = pre @ a\<lparr>refreshTokens := v, u_updatedAt := s, u_v := n\<rparr> # post"
      by blast
    then show ?thesis by (rule disjI2)
  next
    case False
    have "fst (login L C rq e pw db) = db"
    proof (cases "account_valid L a")
      case True
      with False show ?thesis
        using Some by (auto simp: login_def split: sum.splits bool.splits)
    next
      case invalid: False
      then have "\<not> account_valid L (obj ?d)" by (simp add: d4 account_valid_frame)
      then have "save L C rq ?d db = Inl (ValidationError ''User validation failed'')"
        by (rule save_invalid)
      then show ?thesis
        using Some by (auto simp: login_def split_beta split: sum.splits bool.splits)
    qed
    then show ?thesis by simp
  qed
qed

lemma frame_keeps_passwords:
  "db1 = db \<or> (\<exists>pre a post v s n. db = pre @ a # post
                  \<and> db1 = pre @ a\<lparr>refreshTokens := v, u_updatedAt := s, u_v := n\<rparr> # post)
     \<Longrightarrow> map (\<lambda>a. (u_id a, email a, password a)) db1 = map (\<lambda>a. (u_id a, email a, password a)) db"
  by auto

text \<open>
  C10. The pre-save hook returns the document as it is unless \<open>password\<close> was modified.
  So the second save of a signup does not hash again: the account stored holds the
  password hashed once, and \<open>comparePassword\<close> accepts the password of the request,
  given that \<open>bcrypt.compare\<close> accepts a password against its own hash. Refresh, logout
  and login keep the id, the email and the password of every stored account (login on a
  store whose ids are distinct, as a collection's are).
\<close>

theorem password_hashed_once:
  assumes "\<forall>p s. bcrypt_compare L p (bcrypt_hash L p s)"
    and "signup L C rq b db = (db1, Sent 201 body)"
  shows "(\<exists>a. findOne_email db1 (b_email b) = Some a
            \<and> password a = Some (bcrypt_hash L (b_password b)
                                   (bcrypt_genSalt L (BCRYPT_ROUNDS C) (entropy rq)))
            \<and> comparePassword L a (b_password b) = Inr True)
       \<and> (\<not> isModified ''password'' d \<longrightarrow> pre_save L C rq1 d = Inr d)
       \<and> map (\<lambda>a. (u_id a, email a, password a)) (fst (refresh_token L C rq2 rt db2))
           = map (\<lambda>a. (u_id a, email a, password a)) db2
       \<and> map (\<lambda>a. (u_id a, email a, password a)) (fst (logout L C rq3 authId rt3 db3))
           = map (\<lambda>a. (u_id a, email a, password a)) db3
       \<and> (distinct (map u_id db4) \<longrightarrow>
            map (\<lambda>a. (u_id a, email a, password a)) (fst (login L C rq4 e pw db4))
              = map (\<lambda>a. (u_id a, email a, password a)) db4)"
proof (intro conjI impI)
  let ?h = "bcrypt_hash L (b_password b) (bcrypt_genSalt L (BCRYPT_ROUNDS C) (entropy rq))"
  let ?stored = "(obj (new_User (newId rq) b))
                       \<lparr>password := Some ?h,
                        refreshTokens := [\<lparr>token = snd (generateTokens L C rq (newId rq)),
                                           createdAt = clock rq\<rparr>],
                        u_createdAt := clock rq, u_updatedAt := clock rq, u_v := 1\<rparr>"
  from signup_created [OF assms(2)] have
    none: "findOne_email_or_username db (b_email b) (b_username b) = None"
    and db1: "db1 = db @ [?stored]"
    by blast+
  from none have "\<forall>x \<in> set db. email x \<noteq> toLowerCase (b_email b)"
    by (auto simp: findOne_email_or_username_def find_None_iff)
  then have "find (\<lambda>a. email a = toLowerCase (b_email b)) db = None"
    by (simp add: find_None_iff)
  moreover have "email ?stored = toLowerCase (b_email b)" by (simp add: new_User_def)
  ultimately have f: "findOne_email db1 (b_email b) = Some ?stored"
    unfolding findOne_email_def db1 by (induction db) (simp_all split: if_splits)
  have p: "password ?stored = Some ?h" by simp
  have c: "comparePassword L ?stored (b_password b) = Inr True"
    using assms(1) by (simp add: comparePassword_def)
  from f p c show "\<exists>a. findOne_email db1 (b_email b) = Some a
            \<and> password a = Some ?h \<and> comparePassword L a (b_password b) = Inr True"
    by blast
next
  assume "\<not> isModified ''password'' d"
  then show "pre_save L C rq1 d = Inr d" by (rule pre_save_untouched)
next
  show "map (\<lambda>a. (u_id a, email a, password a)) (fst (refresh_token L C rq2 rt db2))
           = map (\<lambda>a. (u_id a, email a, password a)) db2"
    using refresh_token_frame [of L C rq2 rt db2] by (rule frame_keeps_passwords)
next
  show "map (\<lambda>a. (u_id a, email a, password a)) (fst (logout L C rq3 authId rt3 db3))
           = map (\<lambda>a. (u_id a, email a, password a)) db3"
    using logout_frame [of L C rq3 authId rt3 db3] by (rule frame_keeps_passwords)
next
  assume "distinct (map u_id db4)"
  then show "map (\<lambda>a. (u_id a, email a, password a)) (fst (login L C rq4 e pw db4))
              = map (\<lambda>a. (u_id a, email a, password a)) db4"
    using login_frame [of db4 L C rq4 e pw] by (intro frame_keeps_passwords) simp
qed


theorem password_hashed_once_witness:
  "(\<exists>a. findOne_email
            [alice\<lparr>u_id := 2, refreshTokens := [\<lparr>token = ''R.uu.s.ee'', createdAt = 1000\<rparr>],
               u_createdAt := 1000, u_updatedAt := 1000, u_v := 1\<rparr>]
            ''alice@x.com'' = Some a
        \<and> password a = Some ''zq1terces''
        \<and> comparePassword toy_libs a ''secret1'' = Inr True)
   \<and> pre_save toy_libs toy_config (at_time 1400)
        (push_refreshToken (at_time 1400) ''R.u.s.ee'' (hydrate alice))
       = Inr (push_refreshToken (at_time 1400) ''R.u.s.ee'' (hydrate alice))
   \<and> map (\<lambda>a. (u_id a, email a, password a))
        (fst (refresh_token toy_libs toy_config (at_time 1400) (Some ''R.uuuu.s.ee'')
               [alice, dana, bob]))
       = map (\<lambda>a. (u_id a, email a, password a)) [alice, dana, bob]
   \<and> map (\<lambda>a. (u_id a, email a, password a))
        (fst (logout toy_libs toy_config (at_time 1400) 4 None [alice, dana, bob]))
       = map (\<lambda>a. (u_id a, email a, password a)) [alice, dana, bob]
   \<and> map (\<lambda>a. (u_id a, email a, password a))
        (fst (login toy_libs toy_config (at_time 1400) ''dana@x.com'' ''secret1''
               [alice, dana, bob]))
       = map (\<lambda>a. (u_id a, email a, password a)) [alice, dana, bob]"
proof -
  let ?d1 = "[alice\<lparr>u_id := 2, refreshTokens := [\<lparr>token = ''R.uu.s.ee'', createdAt = 1000\<rparr>],
               u_createdAt := 1000, u_updatedAt := 1000, u_v := 1\<rparr>]"
  let ?b1 = "[(''message'', RStr ''User registered successfully''),
                  (''user'', RUser (toJSON (alice\<lparr>u_id := 2, u_createdAt := 1000, u_updatedAt := 1000, u_v := 1\<rparr>))),
                  (''accessToken'', RStr ''A.uu.s.ee''),
                  (''refreshToken'', RStr ''R.uu.s.ee'')]"
  let ?doc = "push_refreshToken (at_time 1400) ''R.u.s.ee'' (hydrate alice)"
  have hb: "\<forall>p s. bcrypt_compare toy_libs p (bcrypt_hash toy_libs p s)"
    by (auto simp: toy_libs_def min_def)
  have h1: "signup toy_libs toy_config (at_time 1000) alice_request [] = (?d1, Sent 201 ?b1)"
    by code_simp
  have hm: "\<not> isModified ''password'' ?doc" by code_simp
  have hd: "distinct (map u_id [alice, dana, bob])" by code_simp
  have e: "b_email alice_request = ''alice@x.com''" and pw: "b_password alice_request = ''secret1''"
    and hh: "bcrypt_hash toy_libs ''secret1''
               (bcrypt_genSalt toy_libs (BCRYPT_ROUNDS toy_config) (entropy (at_time 1000)))
             = ''zq1terces''"
    by code_simp+
  note t = password_hashed_once [OF hb h1, where d = ?doc and ?rq1.0 = "at_time 1400"
      and ?rq2.0 = "at_time 1400" and rt = "Some ''R.uuuu.s.ee''" and ?db2.0 = "[alice, dana, bob]"
      and ?rq3.0 = "at_time 1400" and authId = 4 and ?rt3.0 = None and ?db3.0 = "[alice, dana, bob]"
      and ?db4.0 = "[alice, dana, bob]" and ?rq4.0 = "at_time 1400" and e = "''dana@x.com''"
      and pw = "''secret1''"]
  from t have c1: "\<exists>a. findOne_email ?d1 ''alice@x.com'' = Some a
        \<and> password a = Some ''zq1terces''
        \<and> comparePassword toy_libs a ''secret1'' = Inr True"
    unfolding e pw hh by (rule conjunct1)
  from t [THEN conjunct2, THEN conjunct1] hm
  have c2: "pre_save toy_libs toy_config (at_time 1400) ?doc = Inr ?doc" by (rule mp)
  note c3 = t [THEN conjunct2, THEN conjunct2, THEN conjunct1]
  note c4 = t [THEN conjunct2, THEN conjunct2, THEN conjunct2, THEN conjunct1]
  from t [THEN conjunct2, THEN conjunct2, THEN conjunct2, THEN conjunct2] hd
  have c5: "map (\<lambda>a. (u_id a, email a, password a))
        (fst (login toy_libs toy_config (at_time 1400) ''dana@x.com'' ''secret1''
               [alice, dana, bob]))
       = map (\<lambda>a. (u_id a, email a, password a)) [alice, dana, bob]"
    by (rule mp)
  show ?thesis by (intro conjI) (rule c1 c2 c3 c4 c5)+
qed

section \<open>Distinct ids and accounts that pass the schema\<close>

text \<open>
  The ids of a store stay distinct under the four routes, and its accounts keep passing
  the schema, given for signup that a hash has at least the six characters the schema
  asks of \<open>password\<close> (a bcrypt hash has sixty). So every store reached from the empty one
  has distinct ids and holds only accounts that pass the schema.
\<close>

lemma frame_keeps_ids:
  "db1 = db \<or> (\<exists>pre a post v s n. db = pre @ a # post
                  \<and> db1 = pre @ a\<lparr>refreshTokens := v, u_updatedAt := s, u_v := n\<rparr> # post)
     \<Longrightarrow> map u_id db1 = map u_id db"
  by auto

lemma frame_keeps_valid:
  assumes "db1 = db \<or> (\<exists>pre a post v s n. db = pre @ a # post
                  \<and> db1 = pre @ a\<lparr>refreshTokens := v, u_updatedAt := s, u_v := n\<rparr> # post)"
    and "list_all (account_valid L) db"
  shows "list_all (account_valid L) db1"
  using assms by (auto simp: account_valid_frame)

text \<open>The store after a signup is the old one, or the old one with one account more.\<close>

lemma signup_store:
  "fst (signup L C rq b db) = db
   \<or> (\<exists>u. fst (signup L C rq b db) = db @ [u] \<and> u_id u = newId rq
          \<and> (\<forall>x \<in> set db. u_id x \<noteq> newId rq)
          \<and> ((\<forall>p s. 6 \<le> length (bcrypt_hash L p s)) \<longrightarrow> account_valid L u))"
proof (cases "findOne_email_or_username db (b_email b) (b_username b)")
  case (Some x)
  then show ?thesis by (simp add: signup_def)
next
  case None
  show ?thesis
  proof (cases "save L C rq (new_User (newId rq) b) db")
    case (Inl e)
    then show ?thesis using None by (simp add: signup_def)
  next
    case (Inr r)
    obtain user1 dbA where r: "r = (user1, dbA)" by (cases r)
    note s1 = Inr [unfolded r]
    let ?h = "bcrypt_hash L (b_password b) (bcrypt_genSalt L (BCRYPT_ROUNDS C) (entropy rq))"
    from save_new [OF s1] have
      o1: "obj user1 = (obj (new_User (newId rq) b))\<lparr>password := Some ?h,
                        u_createdAt := clock rq, u_updatedAt := clock rq, u_v := 0\<rparr>"
      and u1: "isNew user1 = False" "modifiedPaths user1 = []"
      and dbA: "dbA = db @ [obj user1]" and fresh: "\<forall>x \<in> set db. u_id x \<noteq> newId rq"
      by simp_all
    have id1: "u_id (obj user1) = newId rq" by (simp add: o1 new_User_def)
    from save_Inr_valid [OF s1] have v0: "account_valid L (obj (new_User (newId rq) b))" .
    have v1: "(\<forall>p s. 6 \<le> length (bcrypt_hash L p s)) \<longrightarrow> account_valid L (obj user1)"
    proof
      assume "\<forall>p s. 6 \<le> length (bcrypt_hash L p s)"
      then have l: "6 \<le> length ?h" by simp
      then have "?h \<noteq> []" by auto
      with v0 l show "account_valid L (obj user1)"
        by (simp add: o1 account_valid_def validated_paths_def path_valid_def)
    qed
    let ?d = "push_refreshToken rq (snd (generateTokens L C rq (newId rq))) user1"
    have d1: "\<not> isNew ?d" and d2: "modifiedPaths ?d \<noteq> []"
      and d3: "set (modifiedPaths ?d) \<subseteq> {''refreshTokens''}"
      and d6: "u_id (obj ?d) = newId rq"
      and d4: "obj ?d = (obj user1)\<lparr>refreshTokens := refreshTokens (obj user1)
                 @ [\<lparr>token = snd (generateTokens L C rq (newId rq)), createdAt = clock rq\<rparr>]\<rparr>"
      using u1 id1 by (simp_all add: push_refreshToken_def markModified_def)
    show ?thesis
    proof (cases "account_valid L (obj ?d)")
      case False
      then have "save L C rq ?d dbA = Inl (ValidationError ''User validation failed'')"
        by (rule save_invalid)
      then have "fst (signup L C rq b db) = db @ [obj user1]"
        using None Inr r dbA id1 by (simp add: signup_def split_beta)
      then show ?thesis using id1 fresh v1 by blast
    next
      case True
      let ?u = "(obj ?d)\<lparr>u_updatedAt := clock rq, u_v := u_v (obj ?d) + 1\<rparr>"
      have "save L C rq ?d (db @ obj user1 # []) =
              Inr (?d\<lparr>obj := ?u, modifiedPaths := []\<rparr>, db @ ?u # [])"
        using d1 d2 d3 True fresh d6 id1 by (intro save_loaded) simp_all
      then have f: "fst (signup L C rq b db) = db @ [?u]"
        using None Inr r dbA id1 by (simp add: signup_def split_beta)
      have "u_id ?u = newId rq" using d6 by simp
      moreover have "account_valid L ?u" using True by (simp add: account_valid_frame)
      ultimately show ?thesis using f fresh by blast
    qed
  qed
qed

lemma signup_keeps_ids_distinct:
  assumes "distinct (map u_id db)"
  shows "distinct (map u_id (fst (signup L C rq b db)))"
proof -
  from signup_store [of L C rq b db] consider
    (same) "fst (signup L C rq b db) = db"
    | (more) u where "fst (signup L C rq b db) = db @ [u]" "u_id u = newId rq"
        "\<forall>x \<in> set db. u_id x \<noteq> newId rq"
    by blast
  then show ?thesis
  proof cases
    case same
    then show ?thesis using assms by simp
  next
    case more
    then show ?thesis using assms by auto
  qed
qed

lemma signup_keeps_accounts_valid:
  assumes "list_all (account_valid L) db" and "\<forall>p s. 6 \<le> length (bcrypt_hash L p s)"
  shows "list_all (account_valid L) (fst (signup L C rq b db))"
proof -
  from signup_store [of L C rq b db] assms(2) consider
    (same) "fst (signup L C rq b db) = db"
    | (more) u where "fst (signup L C rq b db) = db @ [u]" "account_valid L u"
    by blast
  then show ?thesis
  proof cases
    case same
    then show ?thesis using assms(1) by simp
  next
    case more
    then show ?thesis using assms(1) by simp
  qed
qed

lemma routes_keep_ids_distinct:
  assumes "distinct (map u_id db)"
  shows "distinct (map u_id (fst (login L C rq e pw db)))"
    and "distinct (map u_id (fst (refresh_token L C rq rt db)))"
    and "distinct (map u_id (fst (logout L C rq i rt db)))"
  using assms frame_keeps_ids [OF login_frame [OF assms, of L C rq e pw]]
    frame_keeps_ids [OF refresh_token_frame [of L C rq rt db]]
    frame_keeps_ids [OF logout_frame [of L C rq i rt db]]
  by simp_all

lemma routes_keep_accounts_valid:
  assumes "list_all (account_valid L) db"
  shows "distinct (map u_id db) \<Longrightarrow> list_all (account_valid L) (fst (login L C rq e pw db))"
    and "list_all (account_valid L) (fst (refresh_token L C rq rt db))"
    and "list_all (account_valid L) (fst (logout L C rq i rt db))"
proof -
  show "list_all (account_valid L) (fst (login L C rq e pw db))" if "distinct (map u_id db)"
    using login_frame [OF that, of L C rq e pw] assms by (rule frame_keeps_valid)
  show "list_all (account_valid L) (fst (refresh_token L C rq rt db))"
    using refresh_token_frame [of L C rq rt db] assms by (rule frame_keeps_valid)
  show "list_all (account_valid L) (fst (logout L C rq i rt db))"
    using logout_frame [of L C rq i rt db] assms by (rule frame_keeps_valid)
qed

end
